theory Spec2Isabelle
  imports Main "HOL-Library.AList"
begin

section \<open>Values, exceptions and the outside world\<close>

text \<open>
  Both scripts (\<^verbatim>\<open>get_json_360.py\<close>, the metadata harvester, and \<^verbatim>\<open>crawl_360.py\<close>, the
  downloader) talk to an HTTP API, sleep and write files.  The model makes these effects
  explicit: a \<open>world\<close> carries the trace of requests and pauses, the regular files on
  disk with their content, and the paths at which a directory is found; the remote side
  is a function of the history so far.  Console output is not modelled.

  Python values that come from \<^verbatim>\<open>response.json()\<close> are JSON values.  A Python \<^verbatim>\<open>dict\<close>
  is an association list in insertion order.  JSON numbers are integers here; floating
  point is outside the model.  A Python \<^verbatim>\<open>str\<close> is the byte string of its UTF-8
  encoding, where a lone surrogate (which an escape in a response can bring in) is encoded like any other code point of its range, as three bytes \<^verbatim>\<open>ED A0..BF xx\<close>.
\<close>

datatype json =
    JNull
  | JBool bool
  | JInt int
  | JStr string
  | JList "json list"
  | JObj "(string \<times> json) list"

text \<open>
  The two handlers of \<^verbatim>\<open>get_asset_info\<close> distinguish
  \<^verbatim>\<open>requests.exceptions.RequestException\<close> (connection errors, timeouts, and the
  \<^verbatim>\<open>HTTPError\<close> of \<^verbatim>\<open>raise_for_status\<close>) from every other \<^verbatim>\<open>Exception\<close>
  (\<^verbatim>\<open>TypeError\<close>, \<^verbatim>\<open>AttributeError\<close>, \<^verbatim>\<open>ValueError\<close>, ...).
\<close>

datatype error = RequestException | OtherException

datatype event = Get string | Sleep nat

record world =
  trace :: "event list"
  files :: "string \<rightharpoonup> string"
  dirs :: "string set"

text \<open>
  A response of the JSON API: its status code and what \<^verbatim>\<open>response.json()\<close> does, which
  is to return the parsed body or to raise.
\<close>

record response =
  status_code :: int
  json_result :: "error + json"

type_synonym api = "event list \<Rightarrow> string \<Rightarrow> error + response"

definition requests_get :: "api \<Rightarrow> string \<Rightarrow> world \<Rightarrow> (error + response) \<times> world" where
  "requests_get net url w = (net (trace w) url, w\<lparr>trace := trace w @ [Get url]\<rparr>)"

definition time_sleep :: "nat \<Rightarrow> world \<Rightarrow> world" where
  "time_sleep n w = w\<lparr>trace := trace w @ [Sleep n]\<rparr>"

definition raise_for_status :: "response \<Rightarrow> error + unit" where
  "raise_for_status r =
     (if 400 \<le> status_code r \<and> status_code r < 600 then Inl RequestException else Inr ())"

subsection \<open>Python operations on JSON values\<close>

text \<open>\<^verbatim>\<open>bool(v)\<close>\<close>

fun truthy :: "json \<Rightarrow> bool" where
  "truthy JNull = False"
| "truthy (JBool b) = b"
| "truthy (JInt i) = (i \<noteq> 0)"
| "truthy (JStr s) = (s \<noteq> [])"
| "truthy (JList xs) = (xs \<noteq> [])"
| "truthy (JObj kvs) = (kvs \<noteq> [])"

text \<open>The numeric value of an operand of \<^verbatim>\<open>*\<close> and \<^verbatim>\<open>==\<close>: \<^verbatim>\<open>bool\<close> is a subclass of \<^verbatim>\<open>int\<close>.\<close>

fun py_int :: "json \<Rightarrow> int option" where
  "py_int (JInt i) = Some i"
| "py_int (JBool b) = Some (if b then 1 else 0)"
| "py_int _ = None"

text \<open>\<^verbatim>\<open>v == n\<close> for an integer literal \<open>n\<close>\<close>

definition py_eq_int :: "json \<Rightarrow> int \<Rightarrow> bool" where
  "py_eq_int v n = (py_int v = Some n)"

text \<open>\<^verbatim>\<open>s in t\<close> for two strings: \<open>s\<close> occurs in \<open>t\<close> as a substring.\<close>

fun is_substring :: "string \<Rightarrow> string \<Rightarrow> bool" where
  "is_substring s [] = (s = [])"
| "is_substring s (c # t) = (take (length s) (c # t) = s \<or> is_substring s t)"

text \<open>
  \<^verbatim>\<open>k in v\<close> for a string \<open>k\<close>: key membership in a dict, element membership in a list,
  substring test on a string, \<^verbatim>\<open>TypeError\<close> on \<^verbatim>\<open>None\<close>, numbers and booleans.
\<close>

fun py_in :: "string \<Rightarrow> json \<Rightarrow> error + bool" where
  "py_in k (JObj kvs) = Inr (k \<in> set (map fst kvs))"
| "py_in k (JList xs) = Inr (JStr k \<in> set xs)"
| "py_in k (JStr s) = Inr (is_substring k s)"
| "py_in k _ = Inl OtherException"

text \<open>\<^verbatim>\<open>v[k]\<close> for a string \<open>k\<close>: only a dict can be indexed by a string.\<close>

fun py_getitem :: "json \<Rightarrow> string \<Rightarrow> error + json" where
  "py_getitem (JObj kvs) k = (case map_of kvs k of Some v \<Rightarrow> Inr v | None \<Rightarrow> Inl OtherException)"
| "py_getitem _ k = Inl OtherException"

text \<open>\<^verbatim>\<open>v.items()\<close>: \<^verbatim>\<open>AttributeError\<close> unless \<open>v\<close> is a dict.\<close>

fun py_items :: "json \<Rightarrow> error + (string \<times> json) list" where
  "py_items (JObj kvs) = Inr kvs"
| "py_items _ = Inl OtherException"

text \<open>\<^verbatim>\<open>v.get(k, d)\<close>: \<^verbatim>\<open>AttributeError\<close> unless \<open>v\<close> is a dict.\<close>

definition dict_get :: "(string \<times> json) list \<Rightarrow> string \<Rightarrow> json \<Rightarrow> json" where
  "dict_get kvs k d = (case map_of kvs k of Some v \<Rightarrow> v | None \<Rightarrow> d)"

fun py_get :: "json \<Rightarrow> string \<Rightarrow> json \<Rightarrow> error + json" where
  "py_get (JObj kvs) k d = Inr (dict_get kvs k d)"
| "py_get _ k d = Inl OtherException"

text \<open>
  \<^verbatim>\<open>w, h = v\<close>.  A list of two elements unpacks.  A string of two characters or a dict
  of two keys unpacks as well, into two strings, and the product \<^verbatim>\<open>w * h\<close> of two strings
  that follows raises \<^verbatim>\<open>TypeError\<close>; every other value raises here.  Both exceptions reach
  the same handler, so the model raises at once.
\<close>

fun unpack2 :: "json \<Rightarrow> error + (json \<times> json)" where
  "unpack2 (JList [w, h]) = Inr (w, h)"
| "unpack2 _ = Inl OtherException"

text \<open>
  \<^verbatim>\<open>w * h > a * b\<close> where \<open>a\<close> and \<open>b\<close> are numbers.  The product of a string or a list
  with a number is a string or a list, and comparing that with a number raises
  \<^verbatim>\<open>TypeError\<close>; so does the product with \<^verbatim>\<open>None\<close> or a dict.
\<close>

definition area :: "json \<times> json \<Rightarrow> int option" where
  "area p = (case (py_int (fst p), py_int (snd p)) of
               (Some w, Some h) \<Rightarrow> Some (w * h) | _ \<Rightarrow> None)"

definition area_gt :: "json \<times> json \<Rightarrow> json \<times> json \<Rightarrow> error + bool" where
  "area_gt p q = (case (area p, area q) of
                    (Some x, Some y) \<Rightarrow> Inr (x > y) | _ \<Rightarrow> Inl OtherException)"

text \<open>
  \<^verbatim>\<open>s.replace('_', ' ')\<close> and \<^verbatim>\<open>s.title()\<close>.  What \<^verbatim>\<open>str.title\<close> does to letters
  outside ASCII depends on the Unicode tables of the interpreter, so the functions below
  take it as a parameter \<open>title\<close>.  On a string of ASCII characters it is
  \<open>ascii_title\<close>: a letter that follows a letter is made lower case, any other letter
  upper case.  The worked examples use \<open>ascii_title\<close> on such strings only.
\<close>

definition replace_underscores :: "string \<Rightarrow> string" where
  "replace_underscores s = map (\<lambda>c. if c = CHR ''_'' then CHR '' '' else c) s"

definition is_lower :: "char \<Rightarrow> bool" where
  "is_lower c = (97 \<le> (of_char c :: nat) \<and> (of_char c :: nat) \<le> 122)"

definition is_upper :: "char \<Rightarrow> bool" where
  "is_upper c = (65 \<le> (of_char c :: nat) \<and> (of_char c :: nat) \<le> 90)"

definition to_upper :: "char \<Rightarrow> char" where
  "to_upper c = (if is_lower c then char_of ((of_char c :: nat) - 32) else c)"

definition to_lower :: "char \<Rightarrow> char" where
  "to_lower c = (if is_upper c then char_of ((of_char c :: nat) + 32) else c)"

fun title_from :: "bool \<Rightarrow> string \<Rightarrow> string" where
  "title_from previous_is_cased [] = []"
| "title_from previous_is_cased (c # s) =
     (if is_lower c then
        (if previous_is_cased then c else to_upper c) # title_from True s
      else if is_upper c then
        (if previous_is_cased then to_lower c else c) # title_from True s
      else c # title_from False s)"

definition ascii_title :: "string \<Rightarrow> string" where
  "ascii_title s = title_from False s"

section \<open>The metadata harvester (\<^verbatim>\<open>get_json_360.py\<close>)\<close>

definition API_URL :: string where
  "API_URL = ''https://api.polyhaven.com''"

definition assets_url :: string where
  "assets_url = API_URL @ ''/assets?t=hdris''"

definition info_url :: "string \<Rightarrow> string" where
  "info_url asset_id = API_URL @ ''/info/'' @ asset_id"

definition files_url :: "string \<Rightarrow> string" where
  "files_url asset_id = API_URL @ ''/files/'' @ asset_id"

subsection \<open>\<^verbatim>\<open>get_asset_list\<close>\<close>

text \<open>
  The loop of lines 27 to 29: an entry is kept when its value is a dict whose
  \<^verbatim>\<open>'type'\<close> equals 0 (\<^verbatim>\<open>asset_data.get('type')\<close> is \<^verbatim>\<open>None\<close> when the key is missing).
\<close>

fun is_hdri :: "json \<Rightarrow> bool" where
  "is_hdri (JObj kvs) = py_eq_int (dict_get kvs ''type'' JNull) 0"
| "is_hdri _ = False"

fun filter_hdri :: "(string \<times> json) list \<Rightarrow> (string \<times> json) list \<Rightarrow> (string \<times> json) list" where
  "filter_hdri [] hdri_assets = hdri_assets"
| "filter_hdri ((asset_id, asset_data) # rest) hdri_assets =
     filter_hdri rest
       (if is_hdri asset_data then AList.update asset_id (JStr ''hdri'') hdri_assets
        else hdri_assets)"

text \<open>
  Everything inside the \<^verbatim>\<open>try\<close>; the handler \<^verbatim>\<open>except Exception\<close> then returns the
  empty list \<^verbatim>\<open>[]\<close>.
\<close>

definition list_assets_body :: "api \<Rightarrow> world \<Rightarrow> (error + json) \<times> world" where
  "list_assets_body net w =
     (case requests_get net assets_url w of
        (Inl e, w1) \<Rightarrow> (Inl e, w1)
      | (Inr response, w1) \<Rightarrow>
          (case raise_for_status response of
             Inl e \<Rightarrow> (Inl e, w1)
           | Inr _ \<Rightarrow>
               (case json_result response of
                  Inl e \<Rightarrow> (Inl e, w1)
                | Inr all_assets \<Rightarrow>
                    (case py_items all_assets of
                       Inl e \<Rightarrow> (Inl e, w1)
                     | Inr items \<Rightarrow> (Inr (JObj (filter_hdri items [])), w1)))))"

definition get_asset_list :: "api \<Rightarrow> world \<Rightarrow> json \<times> world" where
  "get_asset_list net w =
     (case list_assets_body net w of
        (Inr hdri_assets, w1) \<Rightarrow> (hdri_assets, w1)
      | (Inl e, w1) \<Rightarrow> (JList [], w1))"

subsection \<open>\<^verbatim>\<open>get_asset_info\<close>\<close>

text \<open>Lines 75 to 82: the scan of the file listing for the largest resolution.\<close>

fun scan_formats :: "(string \<times> json) list \<Rightarrow> json \<times> json \<Rightarrow> error + (json \<times> json)" where
  "scan_formats [] max_res = Inr max_res"
| "scan_formats ((format_name, file_info) # rest) max_res =
     (case py_in ''resolution'' file_info of
        Inl e \<Rightarrow> Inl e
      | Inr False \<Rightarrow> scan_formats rest max_res
      | Inr True \<Rightarrow>
          (case py_getitem file_info ''resolution'' of
             Inl e \<Rightarrow> Inl e
           | Inr r \<Rightarrow>
               if \<not> truthy r then scan_formats rest max_res
               else
                 (case unpack2 r of
                    Inl e \<Rightarrow> Inl e
                  | Inr (w, h) \<Rightarrow>
                      (case area_gt (w, h) max_res of
                         Inl e \<Rightarrow> Inl e
                       | Inr b \<Rightarrow> scan_formats rest (if b then (w, h) else max_res)))))"

fun scan_resolutions :: "(string \<times> json) list \<Rightarrow> json \<times> json \<Rightarrow> error + (json \<times> json)" where
  "scan_resolutions [] max_res = Inr max_res"
| "scan_resolutions ((res, formats) # rest) max_res =
     (case py_items formats of
        Inl e \<Rightarrow> Inl e
      | Inr fs \<Rightarrow>
          (case scan_formats fs max_res of
             Inl e \<Rightarrow> Inl e
           | Inr max_res' \<Rightarrow> scan_resolutions rest max_res'))"

definition compute_max_res :: "json \<Rightarrow> error + (json \<times> json)" where
  "compute_max_res files_data =
     (case py_in ''hdri'' files_data of
        Inl e \<Rightarrow> Inl e
      | Inr False \<Rightarrow> Inr (JInt 0, JInt 0)
      | Inr True \<Rightarrow>
          (case py_getitem files_data ''hdri'' of
             Inl e \<Rightarrow> Inl e
           | Inr hdri \<Rightarrow>
               (case py_items hdri of
                  Inl e \<Rightarrow> Inl e
                | Inr entries \<Rightarrow> scan_resolutions entries (JInt 0, JInt 0))))"

text \<open>Lines 85 to 88: the authors are copied into a fresh dict.\<close>

definition copy_authors :: "json \<Rightarrow> error + (string \<times> json) list" where
  "copy_authors data =
     (case py_in ''authors'' data of
        Inl e \<Rightarrow> Inl e
      | Inr False \<Rightarrow> Inr []
      | Inr True \<Rightarrow>
          (case py_getitem data ''authors'' of
             Inl e \<Rightarrow> Inl e
           | Inr a \<Rightarrow>
               (case py_items a of
                  Inl e \<Rightarrow> Inl e
                | Inr items \<Rightarrow>
                    Inr (fold (\<lambda>(author, role) authors. AList.update author role authors)
                           items []))))"

text \<open>The defaults of lines 92 to 102.\<close>

definition default_name :: "(string \<Rightarrow> string) \<Rightarrow> string \<Rightarrow> json" where
  "default_name title asset_id = JStr (title (replace_underscores asset_id))"

definition default_thumbnail_url :: "string \<Rightarrow> json" where
  "default_thumbnail_url asset_id =
     JStr (''https://cdn.polyhaven.com/asset_img/thumbs/'' @ asset_id @ ''.png?width=256&height=256'')"

definition default_authors :: "(string \<times> json) list" where
  "default_authors = [(''Unknown'', JStr ''All'')]"

definition default_max_resolution :: json where
  "default_max_resolution = JList [JInt 8192, JInt 4096]"

text \<open>\<^verbatim>\<open>max_res if max_res != [0, 0] else [8192, 4096]\<close>\<close>

definition max_resolution_field :: "json \<times> json \<Rightarrow> json" where
  "max_resolution_field max_res =
     (if \<not> (py_eq_int (fst max_res) 0 \<and> py_eq_int (snd max_res) 0)
      then JList [fst max_res, snd max_res] else default_max_resolution)"

text \<open>
  Lines 74 to 103, from the parsed info response \<open>data\<close> and the file listing
  \<open>files_data\<close> to the record.  All exceptions raised here are of the second kind, so
  their order does not matter.
\<close>

definition format_asset_info :: "(string \<Rightarrow> string) \<Rightarrow> (string \<times> json) list
    \<Rightarrow> (string \<times> json) list \<Rightarrow> json \<times> json \<Rightarrow> string \<Rightarrow> json" where
  "format_asset_info title kvs authors max_res asset_id =
     JObj
       [(''name'', dict_get kvs ''name'' (default_name title asset_id)),
        (''type'', JInt 0),
        (''date_published'', dict_get kvs ''date_published'' (JInt 0)),
        (''download_count'', dict_get kvs ''download_count'' (JInt 0)),
        (''files_hash'', dict_get kvs ''files_hash'' (JStr [])),
        (''authors'', JObj (if authors \<noteq> [] then authors else default_authors)),
        (''categories'', dict_get kvs ''categories'' (JList [])),
        (''tags'', dict_get kvs ''tags'' (JList [])),
        (''max_resolution'', max_resolution_field max_res),
        (''dimensions'', JList [JInt 30000, JInt 30000]),
        (''thumbnail_url'', dict_get kvs ''thumbnail_url'' (default_thumbnail_url asset_id))]"

definition build_asset_info :: "(string \<Rightarrow> string) \<Rightarrow> json \<Rightarrow> json \<Rightarrow> string
    \<Rightarrow> error + json" where
  "build_asset_info title data files_data asset_id =
     (case compute_max_res files_data of
        Inl e \<Rightarrow> Inl e
      | Inr max_res \<Rightarrow>
          (case copy_authors data of
             Inl e \<Rightarrow> Inl e
           | Inr authors \<Rightarrow>
               (case data of
                  JObj kvs \<Rightarrow> Inr (format_asset_info title kvs authors max_res asset_id)
                | _ \<Rightarrow> Inl OtherException)))"

text \<open>
  Lines 52 to 60: the info request and, on 404, the second request with the suffix.
  The variable \<^verbatim>\<open>asset_id\<close> is overwritten before the second request is made, so the new
  value is returned also when that request raises.
\<close>

definition fetch_info :: "api \<Rightarrow> string \<Rightarrow> world \<Rightarrow> (error + response) \<times> string \<times> world" where
  "fetch_info net asset_id w =
     (case requests_get net (info_url asset_id) w of
        (Inl e, w1) \<Rightarrow> (Inl e, asset_id, w1)
      | (Inr response, w1) \<Rightarrow>
          if status_code response = 404 then
            (let asset_id' = asset_id @ ''_4k'' in
             case requests_get net (info_url asset_id') w1 of
               (r, w2) \<Rightarrow> (r, asset_id', w2))
          else (Inr response, asset_id, w1))"

text \<open>
  Line 72: a file listing that does not come with status 200 is replaced by the empty
  dict.
\<close>

definition files_data_of :: "response \<Rightarrow> error + json" where
  "files_data_of files_response =
     (if status_code files_response = 200 then json_result files_response else Inr (JObj []))"

text \<open>
  Lines 52 to 72, the requests of one attempt: the outcome is the pair of \<^verbatim>\<open>data\<close> and
  \<^verbatim>\<open>files_data\<close>, or \<^verbatim>\<open>None\<close> for the \<^verbatim>\<open>return None\<close> of line 64, or an exception;
  the current value of \<^verbatim>\<open>asset_id\<close> and the world come with each outcome.
\<close>

definition fetch_data :: "api \<Rightarrow> string \<Rightarrow> world
    \<Rightarrow> (error + (json \<times> json) option) \<times> string \<times> world" where
  "fetch_data net asset_id w =
     (case fetch_info net asset_id w of
        (Inl e, asset_id1, w1) \<Rightarrow> (Inl e, asset_id1, w1)
      | (Inr response, asset_id1, w1) \<Rightarrow>
          if status_code response = 404 then (Inr None, asset_id1, w1)
          else
            (case raise_for_status response of
               Inl e \<Rightarrow> (Inl e, asset_id1, w1)
             | Inr _ \<Rightarrow>
                 (case json_result response of
                    Inl e \<Rightarrow> (Inl e, asset_id1, w1)
                  | Inr data \<Rightarrow>
                      (case requests_get net (files_url asset_id1) w1 of
                         (Inl e, w2) \<Rightarrow> (Inl e, asset_id1, w2)
                       | (Inr files_response, w2) \<Rightarrow>
                           (case files_data_of files_response of
                              Inl e \<Rightarrow> (Inl e, asset_id1, w2)
                            | Inr files_data \<Rightarrow>
                                (Inr (Some (data, files_data)), asset_id1, w2))))))"

text \<open>The whole body of the \<^verbatim>\<open>try\<close> (lines 51 to 105).\<close>

definition try_fetch :: "(string \<Rightarrow> string) \<Rightarrow> api \<Rightarrow> string \<Rightarrow> world
    \<Rightarrow> (error + json option) \<times> string \<times> world" where
  "try_fetch title net asset_id w =
     (case fetch_data net asset_id w of
        (Inl e, asset_id1, w1) \<Rightarrow> (Inl e, asset_id1, w1)
      | (Inr None, asset_id1, w1) \<Rightarrow> (Inr None, asset_id1, w1)
      | (Inr (Some (data, files_data)), asset_id1, w1) \<Rightarrow>
          (case build_asset_info title data files_data asset_id1 of
             Inl e \<Rightarrow> (Inl e, asset_id1, w1)
           | Inr asset_info \<Rightarrow> (Inr (Some asset_info), asset_id1, w1)))"

text \<open>
  \<^verbatim>\<open>for attempt in range(max_retries)\<close>: the third argument counts the iterations
  that \<^verbatim>\<open>range\<close> still has to give.  When the range is used up the function falls off
  its end and returns \<^verbatim>\<open>None\<close>.
\<close>

fun retry_loop :: "(string \<Rightarrow> string) \<Rightarrow> api \<Rightarrow> int \<Rightarrow> nat \<Rightarrow> int \<Rightarrow> string \<Rightarrow> world
    \<Rightarrow> json option \<times> world" where
  "retry_loop title net max_retries 0 attempt asset_id w = (None, w)"
| "retry_loop title net max_retries (Suc remaining) attempt asset_id w =
     (case try_fetch title net asset_id w of
        (Inr result, asset_id1, w1) \<Rightarrow> (result, w1)
      | (Inl RequestException, asset_id1, w1) \<Rightarrow>
          if attempt = max_retries - 1 then (None, w1)
          else retry_loop title net max_retries remaining (attempt + 1) asset_id1 (time_sleep 1 w1)
      | (Inl OtherException, asset_id1, w1) \<Rightarrow> (None, w1))"

definition get_asset_info :: "(string \<Rightarrow> string) \<Rightarrow> api \<Rightarrow> string \<Rightarrow> int \<Rightarrow> world
    \<Rightarrow> json option \<times> world" where
  "get_asset_info title net asset_id max_retries w =
     retry_loop title net max_retries (nat max_retries) 0 asset_id w"

subsection \<open>\<^verbatim>\<open>json.dump(data, f, indent=2, ensure_ascii=False)\<close>\<close>

text \<open>
  The text that the standard library's encoder produces with these options: two spaces
  per nesting level, \<^verbatim>\<open>,\<close> between items, \<^verbatim>\<open>: \<close> after a key, \<^verbatim>\<open>[]\<close> and \<^verbatim>\<open>{}\<close>
  for the empty containers.  In a string only the quote, the backslash and the control
  characters below 0x20 are escaped; every other byte, those of non-ASCII text included,
  is written as it is.
\<close>

definition dquote :: char where
  "dquote = CHR 0x22"

definition backslash :: char where
  "backslash = CHR 0x5C"

definition hex_digit :: "nat \<Rightarrow> char" where
  "hex_digit n = (if n < 10 then char_of (48 + n) else char_of (87 + n))"

definition escape_char :: "char \<Rightarrow> string" where
  "escape_char c =
     (if c = dquote then [backslash, dquote]
      else if c = backslash then [backslash, backslash]
      else if c = CHR 0x0A then [backslash, CHR ''n'']
      else if c = CHR 0x0D then [backslash, CHR ''r'']
      else if c = CHR 0x09 then [backslash, CHR ''t'']
      else if c = CHR 0x08 then [backslash, CHR ''b'']
      else if c = CHR 0x0C then [backslash, CHR ''f'']
      else if (of_char c :: nat) < 32 then
        [backslash, CHR ''u'', CHR ''0'', CHR ''0'',
         hex_digit ((of_char c :: nat) div 16), hex_digit ((of_char c :: nat) mod 16)]
      else [c])"

definition encode_str :: "string \<Rightarrow> string" where
  "encode_str s = dquote # concat (map escape_char s) @ [dquote]"

fun show_nat :: "nat \<Rightarrow> string" where
  "show_nat n =
     (if n < 10 then [char_of (48 + n)]
      else show_nat (n div 10) @ [char_of (48 + n mod 10)])"

declare show_nat.simps [simp del]

definition show_int :: "int \<Rightarrow> string" where
  "show_int i = (if i < 0 then CHR ''-'' # show_nat (nat (- i)) else show_nat (nat i))"

definition newline_indent :: "nat \<Rightarrow> string" where
  "newline_indent level = CHR 0x0A # replicate (2 * level) CHR '' ''"

fun dumps_at :: "nat \<Rightarrow> json \<Rightarrow> string"
  and dumps_items :: "nat \<Rightarrow> json list \<Rightarrow> string"
  and dumps_members :: "nat \<Rightarrow> (string \<times> json) list \<Rightarrow> string"
where
  "dumps_at level JNull = ''null''"
| "dumps_at level (JBool b) = (if b then ''true'' else ''false'')"
| "dumps_at level (JInt i) = show_int i"
| "dumps_at level (JStr s) = encode_str s"
| "dumps_at level (JList xs) =
     (if xs = [] then ''[]''
      else ''['' @ newline_indent (Suc level) @ dumps_items (Suc level) xs
           @ newline_indent level @ '']'')"
| "dumps_at level (JObj kvs) =
     (if kvs = [] then ''{}''
      else ''{'' @ newline_indent (Suc level) @ dumps_members (Suc level) kvs
           @ newline_indent level @ ''}'')"
| "dumps_items level [] = []"
| "dumps_items level [x] = dumps_at level x"
| "dumps_items level (x # y # xs) =
     dumps_at level x @ '','' @ newline_indent level @ dumps_items level (y # xs)"
| "dumps_members level [] = []"
| "dumps_members level [(k, v)] = encode_str k @ '': '' @ dumps_at level v"
| "dumps_members level ((k, v) # m # kvs) =
     encode_str k @ '': '' @ dumps_at level v @ '','' @ newline_indent level
     @ dumps_members level (m # kvs)"

definition json_dumps :: "json \<Rightarrow> string" where
  "json_dumps v = dumps_at 0 v"

subsection \<open>Files\<close>

text \<open>
  What the disk does when a file is opened for writing and written: \<^verbatim>\<open>open\<close> may raise
  (\<^verbatim>\<open>OSError\<close>: a missing directory, no permission, a path that cannot name a file)
  and so may a write; what has reached the file when a write raises is
  a prefix of the content, of a length that is up to the environment.  Opening creates
  or truncates the file; opening a path at which a directory is found raises.  The set
  \<open>dirs\<close> of the world holds every spelling of a path at which \<^verbatim>\<open>os.path.exists\<close> finds
  a directory, with a trailing slash as well.
\<close>

record disk =
  open_fails :: "string \<Rightarrow> bool"
  write_fails :: "string \<Rightarrow> bool"
  kept_on_error :: "string \<Rightarrow> nat"

definition os_path_exists :: "world \<Rightarrow> string \<Rightarrow> bool" where
  "os_path_exists w path = (files w path \<noteq> None \<or> path \<in> dirs w)"

text \<open>\<^verbatim>\<open>with open(path, "wb") as f:\<close> and the writes of \<open>content\<close> in its body.\<close>

definition write_file :: "disk \<Rightarrow> string \<Rightarrow> string \<Rightarrow> world \<Rightarrow> (error + unit) \<times> world" where
  "write_file d path content w =
     (if open_fails d path \<or> path \<in> dirs w then (Inl OtherException, w)
      else if write_fails d path
      then (Inl OtherException,
            w\<lparr>files := (files w)(path \<mapsto> take (kept_on_error d path) content)\<rparr>)
      else (Inr (), w\<lparr>files := (files w)(path \<mapsto> content)\<rparr>))"

text \<open>
  A text file opened with \<^verbatim>\<open>encoding='utf-8'\<close> cannot take a lone surrogate: the write
  raises \<^verbatim>\<open>UnicodeEncodeError\<close>.
\<close>

fun has_surrogate :: "string \<Rightarrow> bool" where
  "has_surrogate (a # b # s) =
     ((a = CHR 0xED \<and> 160 \<le> (of_char b :: nat) \<and> (of_char b :: nat) \<le> 191)
      \<or> has_surrogate (b # s))"
| "has_surrogate s = False"

text \<open>\<^verbatim>\<open>with open(path, 'w', encoding='utf-8') as f:\<close> and the writes of \<open>content\<close>.\<close>

definition write_text :: "disk \<Rightarrow> string \<Rightarrow> string \<Rightarrow> world \<Rightarrow> (error + unit) \<times> world" where
  "write_text d path content w =
     (if open_fails d path \<or> path \<in> dirs w then (Inl OtherException, w)
      else if write_fails d path \<or> has_surrogate content
      then (Inl OtherException,
            w\<lparr>files := (files w)(path \<mapsto> take (kept_on_error d path) content)\<rparr>)
      else (Inr (), w\<lparr>files := (files w)(path \<mapsto> content)\<rparr>))"

subsection \<open>\<^verbatim>\<open>save_to_json\<close> and \<^verbatim>\<open>main\<close>\<close>

text \<open>
  The body of the \<^verbatim>\<open>try\<close> returns \<^verbatim>\<open>True\<close>; the handler \<^verbatim>\<open>except Exception\<close> returns
  \<^verbatim>\<open>False\<close>.  Every value of type \<open>json\<close> can be serialised; limits of the interpreter
  (recursion depth, memory) are outside the model.
\<close>

definition save_to_json :: "disk \<Rightarrow> json \<Rightarrow> string \<Rightarrow> world \<Rightarrow> bool \<times> world" where
  "save_to_json d data filename w =
     (case write_text d filename (json_dumps data) w of
        (Inr _, w1) \<Rightarrow> (True, w1)
      | (Inl e, w1) \<Rightarrow> (False, w1))"

text \<open>
  The loop of lines 143 to 155 over the listed identifiers, with the default
  \<^verbatim>\<open>max_retries=3\<close>.  The counter \<^verbatim>\<open>processed\<close> is only printed and is left out.
\<close>

fun process_assets :: "(string \<Rightarrow> string) \<Rightarrow> api \<Rightarrow> (string \<times> json) list
    \<Rightarrow> (string \<times> json) list \<Rightarrow> world \<Rightarrow> (string \<times> json) list \<times> world" where
  "process_assets title net [] assets_data w = (assets_data, w)"
| "process_assets title net ((asset_id, tag) # rest) assets_data w =
     (case get_asset_info title net asset_id 3 w of
        (asset_info, w1) \<Rightarrow>
          process_assets title net rest
            (case asset_info of
               Some info \<Rightarrow>
                 if truthy info then AList.update asset_id info assets_data else assets_data
             | None \<Rightarrow> assets_data)
            (time_sleep 1 w1))"

text \<open>
  \<^verbatim>\<open>main\<close> returns \<^verbatim>\<open>None\<close> when the listing is empty and the collection otherwise.
  \<^verbatim>\<open>hdri_assets.items()\<close> is outside any \<^verbatim>\<open>try\<close>, so an exception there would leave
  \<^verbatim>\<open>main\<close>.
\<close>

definition main :: "(string \<Rightarrow> string) \<Rightarrow> api \<Rightarrow> disk \<Rightarrow> world
    \<Rightarrow> (error + (string \<times> json) list option) \<times> world" where
  "main title net d w =
     (case get_asset_list net w of
        (hdri_assets, w1) \<Rightarrow>
          if \<not> truthy hdri_assets then (Inr None, w1)
          else
            (case py_items hdri_assets of
               Inl e \<Rightarrow> (Inl e, w1)
             | Inr items \<Rightarrow>
                 (case process_assets title net (take 843 items) [] w1 of
                    (assets_data, w2) \<Rightarrow>
                      if assets_data \<noteq> []
                      then (Inr (Some assets_data),
                            snd (save_to_json d (JObj assets_data) ''hdri_metadata.json'' w2))
                      else (Inr (Some assets_data), w2))))"

section \<open>The downloader (\<^verbatim>\<open>crawl_360.py\<close>)\<close>

text \<open>
  A streamed response: the status, the chunks that \<^verbatim>\<open>iter_content\<close> would give, and
  whether the iteration raises after some of them (a connection lost in mid-transfer).
\<close>

record stream_response =
  dl_status :: int
  dl_chunks :: "string list"
  dl_breaks_after :: "nat option"

type_synonym file_server = "event list \<Rightarrow> string \<Rightarrow> error + stream_response"

definition stream_get :: "file_server \<Rightarrow> string \<Rightarrow> world \<Rightarrow> (error + stream_response) \<times> world" where
  "stream_get net url w = (net (trace w) url, w\<lparr>trace := trace w @ [Get url]\<rparr>)"

text \<open>\<^verbatim>\<open>url.split("/")[-1]\<close>\<close>

definition last_segment :: "string \<Rightarrow> string" where
  "last_segment url = rev (takeWhile (\<lambda>c. c \<noteq> CHR ''/'') (rev url))"

text \<open>\<^verbatim>\<open>os.path.join(a, b)\<close> (POSIX)\<close>

definition os_path_join :: "string \<Rightarrow> string \<Rightarrow> string" where
  "os_path_join a b =
     (if b \<noteq> [] \<and> hd b = CHR ''/'' then b
      else if a = [] \<or> last a = CHR ''/'' then a @ b
      else a @ ''/'' @ b)"

text \<open>The chunks that are written before the iteration ends or raises.\<close>

definition received :: "stream_response \<Rightarrow> string list" where
  "received r =
     (case dl_breaks_after r of
        None \<Rightarrow> dl_chunks r
      | Some k \<Rightarrow> take k (dl_chunks r))"

definition stream_breaks :: "stream_response \<Rightarrow> bool" where
  "stream_breaks r =
     (case dl_breaks_after r of
        None \<Rightarrow> False
      | Some k \<Rightarrow> k < length (dl_chunks r))"

text \<open>
  Lines 44 to 52, the body of the \<^verbatim>\<open>try\<close>.  The \<^verbatim>\<open>with\<close> block closes the file when
  an exception passes through it, so what was written stays on disk.
\<close>

definition download_body :: "file_server \<Rightarrow> disk \<Rightarrow> string \<Rightarrow> string \<Rightarrow> world
    \<Rightarrow> (error + unit) \<times> world" where
  "download_body net d url path w =
     (case stream_get net url w of
        (Inl e, w1) \<Rightarrow> (Inl e, w1)
      | (Inr r, w1) \<Rightarrow>
          if dl_status r = 200 then
            (case write_file d path (concat (received r)) w1 of
               (Inl e, w2) \<Rightarrow> (Inl e, w2)
             | (Inr _, w2) \<Rightarrow>
                 if stream_breaks r then (Inl RequestException, w2) else (Inr (), w2))
          else (Inr (), w1))"

definition download_file :: "file_server \<Rightarrow> disk \<Rightarrow> string \<Rightarrow> string \<Rightarrow> world \<Rightarrow> world" where
  "download_file net d url save_dir w =
     (let filename = last_segment url;
          path = os_path_join save_dir filename
      in if os_path_exists w path then w
         else snd (download_body net d url path w))"

section \<open>Definitions used in the statements\<close>

subsection \<open>Traces of retries\<close>

text \<open>
  What \<open>k\<close> failed attempts at \<open>url\<close>, each followed by its pause of one second, add
  to the trace; and the trace of \<open>n\<close> attempts that all fail at the info request: \<open>n\<close>
  requests with a pause of one second between two of them and none after the last.
\<close>

definition attempt_history :: "string \<Rightarrow> nat \<Rightarrow> event list" where
  "attempt_history url k = concat (replicate k [Get url, Sleep 1])"

fun retry_trace :: "string \<Rightarrow> nat \<Rightarrow> event list" where
  "retry_trace url 0 = []"
| "retry_trace url (Suc k) = attempt_history url k @ [Get url]"

subsection \<open>The resolution pairs of a file listing\<close>

fun pair_of_entry :: "json \<Rightarrow> (int \<times> int) list" where
  "pair_of_entry (JList [a, b]) =
     (case (py_int a, py_int b) of (Some w, Some h) \<Rightarrow> [(w, h)] | _ \<Rightarrow> [])"
| "pair_of_entry _ = []"

definition pairs_of_file :: "json \<Rightarrow> (int \<times> int) list" where
  "pairs_of_file file_info =
     (case file_info of
        JObj kvs \<Rightarrow> (case map_of kvs ''resolution'' of Some r \<Rightarrow> pair_of_entry r | None \<Rightarrow> [])
      | _ \<Rightarrow> [])"

definition pairs_of_formats :: "json \<Rightarrow> (int \<times> int) list" where
  "pairs_of_formats formats =
     (case formats of
        JObj fs \<Rightarrow> concat (map (\<lambda>(format_name, file_info). pairs_of_file file_info) fs)
      | _ \<Rightarrow> [])"

definition resolution_pairs :: "json \<Rightarrow> (int \<times> int) list" where
  "resolution_pairs files_data =
     (case files_data of
        JObj tops \<Rightarrow>
          (case map_of tops ''hdri'' of
             Some (JObj rs) \<Rightarrow> concat (map (\<lambda>(res, formats). pairs_of_formats formats) rs)
           | _ \<Rightarrow> [])
      | _ \<Rightarrow> [])"

text \<open>The relation between the running maximum before and after a part of the scan.\<close>

definition scanned :: "(int \<times> int) list \<Rightarrow> json \<times> json \<Rightarrow> json \<times> json \<Rightarrow> bool" where
  "scanned ps m0 m =
     (\<exists>a0 a. area m0 = Some a0 \<and> area m = Some a \<and> a0 \<le> a \<and>
        (\<forall>(w, h) \<in> set ps. w * h \<le> a) \<and>
        (m = m0 \<or> a0 < a \<and> (\<exists>w h. py_int (fst m) = Some w \<and> py_int (snd m) = Some h \<and> (w, h) \<in> set ps)))"

text \<open>
  A file listing in the shape that the API documents: a dict that may have the key
  \<^verbatim>\<open>hdri\<close>, under it a dict from resolution names to dicts from format names to file
  infos, each file info a dict whose \<^verbatim>\<open>resolution\<close>, when present and not empty, is a
  list of two numbers.
\<close>

fun resolution_ok :: "json \<Rightarrow> bool" where
  "resolution_ok (JList [a, b]) = (py_int a \<noteq> None \<and> py_int b \<noteq> None)"
| "resolution_ok r = (\<not> truthy r)"

definition file_info_ok :: "json \<Rightarrow> bool" where
  "file_info_ok file_info =
     (case file_info of
        JObj kvs \<Rightarrow> (case map_of kvs ''resolution'' of None \<Rightarrow> True | Some r \<Rightarrow> resolution_ok r)
      | _ \<Rightarrow> False)"

definition formats_ok :: "json \<Rightarrow> bool" where
  "formats_ok formats =
     (case formats of JObj fs \<Rightarrow> list_all (\<lambda>(format_name, file_info). file_info_ok file_info) fs
      | _ \<Rightarrow> False)"

definition listing_ok :: "json \<Rightarrow> bool" where
  "listing_ok files_data =
     (case files_data of
        JObj tops \<Rightarrow>
          (case map_of tops ''hdri'' of
             None \<Rightarrow> True
           | Some (JObj rs) \<Rightarrow> list_all (\<lambda>(res, formats). formats_ok formats) rs
           | Some _ \<Rightarrow> False)
      | _ \<Rightarrow> False)"

subsection \<open>The fields of a record\<close>



subsection \<open>Reading a JSON document\<close>

text \<open>
  Reading the document back: \<^verbatim>\<open>json.load\<close> on the text of the file, for documents
  without fractions and exponents (a number with either is outside the model and gives
  \<open>None\<close>, as a malformed document does).  The number of nested calls is bounded by the
  length of the text.
\<close>

definition is_ws :: "char \<Rightarrow> bool" where
  "is_ws c = (c = CHR '' '' \<or> c = CHR 0x09 \<or> c = CHR 0x0A \<or> c = CHR 0x0D)"

definition skip_ws :: "string \<Rightarrow> string" where
  "skip_ws s = dropWhile is_ws s"

definition is_digit :: "char \<Rightarrow> bool" where
  "is_digit c = (48 \<le> (of_char c :: nat) \<and> (of_char c :: nat) \<le> 57)"

definition hex_val :: "char \<Rightarrow> nat option" where
  "hex_val c =
     (let n = (of_char c :: nat) in
      if 48 \<le> n \<and> n \<le> 57 then Some (n - 48)
      else if 97 \<le> n \<and> n \<le> 102 then Some (n - 87)
      else if 65 \<le> n \<and> n \<le> 70 then Some (n - 55)
      else None)"

definition hex4 :: "char \<Rightarrow> char \<Rightarrow> char \<Rightarrow> char \<Rightarrow> nat option" where
  "hex4 a b c d =
     (case (hex_val a, hex_val b, hex_val c, hex_val d) of
        (Some x, Some y, Some z, Some u) \<Rightarrow> Some (((x * 16 + y) * 16 + z) * 16 + u)
      | _ \<Rightarrow> None)"

text \<open>The escapes of one character after a backslash.\<close>

definition unescape :: "char \<Rightarrow> char option" where
  "unescape e =
     (if e = dquote then Some dquote
      else if e = backslash then Some backslash
      else if e = CHR ''/'' then Some CHR ''/''
      else if e = CHR ''b'' then Some (CHR 0x08)
      else if e = CHR ''f'' then Some (CHR 0x0C)
      else if e = CHR ''n'' then Some (CHR 0x0A)
      else if e = CHR ''r'' then Some (CHR 0x0D)
      else if e = CHR ''t'' then Some (CHR 0x09)
      else None)"

text \<open>
  The body of a string up to its closing quote, as literal bytes and \<^verbatim>\<open>u\<close> escapes.  A
  control character below 0x20 is not allowed in a string.
\<close>

datatype str_unit = Byte char | Esc nat

fun parse_units :: "string \<Rightarrow> (str_unit list \<times> string) option" where
  "parse_units [] = None"
| "parse_units (c # s) =
     (if c = dquote then Some ([], s)
      else if c = backslash then
        (case s of
           [] \<Rightarrow> None
         | e # s1 \<Rightarrow>
             if e = CHR ''u'' then
               (case s1 of
                  a # b # c2 # d # s2 \<Rightarrow>
                    (case hex4 a b c2 d of
                       None \<Rightarrow> None
                     | Some n \<Rightarrow>
                         (case parse_units s2 of
                            None \<Rightarrow> None
                          | Some (us, r) \<Rightarrow> Some (Esc n # us, r)))
                | _ \<Rightarrow> None)
             else
               (case unescape e of
                  None \<Rightarrow> None
                | Some x \<Rightarrow>
                    (case parse_units s1 of
                       None \<Rightarrow> None
                     | Some (us, r) \<Rightarrow> Some (Byte x # us, r))))
      else if (of_char c :: nat) < 32 then None
      else
        (case parse_units s of
           None \<Rightarrow> None
         | Some (us, r) \<Rightarrow> Some (Byte c # us, r)))"

text \<open>
  The bytes of a code point, and the decoding of the units: two escapes that form a
  surrogate pair give one code point, any other escape gives its own.
\<close>

definition utf8 :: "nat \<Rightarrow> string" where
  "utf8 n =
     (if n < 128 then [char_of n]
      else if n < 2048 then [char_of (192 + n div 64), char_of (128 + n mod 64)]
      else if n < 65536 then
        [char_of (224 + n div 4096), char_of (128 + n div 64 mod 64), char_of (128 + n mod 64)]
      else
        [char_of (240 + n div 262144), char_of (128 + n div 4096 mod 64),
         char_of (128 + n div 64 mod 64), char_of (128 + n mod 64)])"

definition is_high :: "nat \<Rightarrow> bool" where
  "is_high n = (55296 \<le> n \<and> n \<le> 56319)"

definition is_low :: "nat \<Rightarrow> bool" where
  "is_low n = (56320 \<le> n \<and> n \<le> 57343)"

fun decode_units :: "str_unit list \<Rightarrow> string" where
  "decode_units [] = []"
| "decode_units (Byte c # us) = c # decode_units us"
| "decode_units (Esc hi # Esc lo # us) =
     (if is_high hi \<and> is_low lo
      then utf8 (65536 + (hi - 55296) * 1024 + (lo - 56320)) @ decode_units us
      else utf8 hi @ decode_units (Esc lo # us))"
| "decode_units (Esc n # us) = utf8 n @ decode_units us"

definition parse_string :: "string \<Rightarrow> (string \<times> string) option" where
  "parse_string s =
     (case parse_units s of None \<Rightarrow> None | Some (us, r) \<Rightarrow> Some (decode_units us, r))"

text \<open>Integers: an optional minus sign, then \<^verbatim>\<open>0\<close> or digits that do not start with \<^verbatim>\<open>0\<close>.\<close>

fun parse_digits :: "string \<Rightarrow> nat \<Rightarrow> nat \<times> string" where
  "parse_digits [] acc = (acc, [])"
| "parse_digits (c # s) acc =
     (if is_digit c then parse_digits s (acc * 10 + ((of_char c :: nat) - 48)) else (acc, c # s))"

definition parse_nat :: "string \<Rightarrow> (nat \<times> string) option" where
  "parse_nat s =
     (case s of
        [] \<Rightarrow> None
      | c # t \<Rightarrow>
          if c = CHR ''0'' then Some (0, t)
          else if is_digit c then Some (parse_digits s 0)
          else None)"

definition parse_number :: "string \<Rightarrow> (json \<times> string) option" where
  "parse_number s =
     (case (case s of
              c # t \<Rightarrow>
                if c = CHR ''-''
                then map_option (\<lambda>(n, r). (- int n, r)) (parse_nat t)
                else map_option (\<lambda>(n, r). (int n, r)) (parse_nat s)
            | [] \<Rightarrow> None) of
        None \<Rightarrow> None
      | Some (i, r) \<Rightarrow>
          (case r of
             [] \<Rightarrow> Some (JInt i, r)
           | c # t \<Rightarrow>
               if c = CHR ''.'' \<or> c = CHR ''e'' \<or> c = CHR ''E'' then None
               else Some (JInt i, r)))"

text \<open>A dict made from the pairs of an object: a repeated key keeps its first place and takes the last value.\<close>

definition dict_of_pairs :: "(string \<times> json) list \<Rightarrow> (string \<times> json) list" where
  "dict_of_pairs pairs = fold (\<lambda>(k, v) acc. AList.update k v acc) pairs []"

fun parse_value :: "nat \<Rightarrow> string \<Rightarrow> (json \<times> string) option"
  and parse_items :: "nat \<Rightarrow> string \<Rightarrow> (json list \<times> string) option"
  and parse_members :: "nat \<Rightarrow> string \<Rightarrow> ((string \<times> json) list \<times> string) option"
where
  "parse_value 0 s = None"
| "parse_value (Suc n) s =
     (case s of
        [] \<Rightarrow> None
      | c # t \<Rightarrow>
          if c = dquote then
            (case parse_string t of None \<Rightarrow> None | Some (x, r) \<Rightarrow> Some (JStr x, r))
          else if c = CHR ''{'' then
            (case skip_ws t of
               [] \<Rightarrow> None
             | c1 # r1 \<Rightarrow>
                 if c1 = CHR ''}'' then Some (JObj [], r1)
                 else
                   (case parse_members n (c1 # r1) of
                      None \<Rightarrow> None
                    | Some (pairs, r) \<Rightarrow> Some (JObj (dict_of_pairs pairs), r)))
          else if c = CHR ''['' then
            (case skip_ws t of
               [] \<Rightarrow> None
             | c1 # r1 \<Rightarrow>
                 if c1 = CHR '']'' then Some (JList [], r1)
                 else
                   (case parse_items n (c1 # r1) of
                      None \<Rightarrow> None
                    | Some (xs, r) \<Rightarrow> Some (JList xs, r)))
          else if take 4 s = ''null'' then Some (JNull, drop 4 s)
          else if take 4 s = ''true'' then Some (JBool True, drop 4 s)
          else if take 5 s = ''false'' then Some (JBool False, drop 5 s)
          else parse_number s)"
| "parse_items 0 s = None"
| "parse_items (Suc n) s =
     (case parse_value n s of
        None \<Rightarrow> None
      | Some (x, r) \<Rightarrow>
          (case skip_ws r of
             [] \<Rightarrow> None
           | c # r1 \<Rightarrow>
               if c = CHR '']'' then Some ([x], r1)
               else if c = CHR '','' then
                 (case parse_items n (skip_ws r1) of
                    None \<Rightarrow> None
                  | Some (xs, r2) \<Rightarrow> Some (x # xs, r2))
               else None))"
| "parse_members 0 s = None"
| "parse_members (Suc n) s =
     (case s of
        [] \<Rightarrow> None
      | q # t \<Rightarrow>
          if q \<noteq> dquote then None
          else
            (case parse_string t of
               None \<Rightarrow> None
             | Some (k, r) \<Rightarrow>
                 (case skip_ws r of
                    [] \<Rightarrow> None
                  | c # r1 \<Rightarrow>
                      if c \<noteq> CHR '':'' then None
                      else
                        (case parse_value n (skip_ws r1) of
                           None \<Rightarrow> None
                         | Some (v, r2) \<Rightarrow>
                             (case skip_ws r2 of
                                [] \<Rightarrow> None
                              | c2 # r3 \<Rightarrow>
                                  if c2 = CHR ''}'' then Some ([(k, v)], r3)
                                  else if c2 = CHR '','' then
                                    (case parse_members n (skip_ws r3) of
                                       None \<Rightarrow> None
                                     | Some (pairs, r4) \<Rightarrow> Some ((k, v) # pairs, r4))
                                  else None)))))"

definition json_loads :: "string \<Rightarrow> json option" where
  "json_loads s =
     (case parse_value (Suc (length s)) (skip_ws s) of
        None \<Rightarrow> None
      | Some (v, r) \<Rightarrow> if skip_ws r = [] then Some v else None)"

text \<open>A Python value: the keys of every dict are distinct.\<close>

fun wf_json :: "json \<Rightarrow> bool"
  and wf_items :: "json list \<Rightarrow> bool"
  and wf_members :: "(string \<times> json) list \<Rightarrow> bool"
where
  "wf_json (JList xs) = wf_items xs"
| "wf_json (JObj kvs) = (distinct (map fst kvs) \<and> wf_members kvs)"
| "wf_json v = True"
| "wf_items [] = True"
| "wf_items (x # xs) = (wf_json x \<and> wf_items xs)"
| "wf_members [] = True"
| "wf_members ((k, v) # kvs) = (wf_json v \<and> wf_members kvs)"

definition delim :: "string \<Rightarrow> bool" where
  "delim rest = (case rest of [] \<Rightarrow> True | c # t \<Rightarrow> c = CHR '','' \<or> c = CHR 0x0A)"

text \<open>How the encoder writes one byte of a string, as the reader sees it.\<close>

definition unit_of :: "char \<Rightarrow> str_unit" where
  "unit_of c =
     (if (of_char c :: nat) < 32 \<and> c \<noteq> CHR 0x08 \<and> c \<noteq> CHR 0x09 \<and> c \<noteq> CHR 0x0A
           \<and> c \<noteq> CHR 0x0C \<and> c \<noteq> CHR 0x0D
      then Esc (of_char c) else Byte c)"

definition value_start :: "char \<Rightarrow> bool" where
  "value_start c = (\<not> is_ws c \<and> c \<noteq> CHR '']'' \<and> c \<noteq> CHR ''}'')"

subsection \<open>Worked examples\<close>

text \<open>The world at the start of the worked examples: nothing has happened, no files.\<close>

definition w0 :: world where
  "w0 = \<lparr>trace = [], files = Map.empty, dirs = {}\<rparr>"

text \<open>A disk on which nothing fails.\<close>

definition d0 :: disk where
  "d0 = \<lparr>open_fails = (\<lambda>path. False), write_fails = (\<lambda>path. False), kept_on_error = (\<lambda>path. 0)\<rparr>"

text \<open>A disk on which no file can be opened.\<close>

definition locked_disk :: disk where
  "locked_disk =
     \<lparr>open_fails = (\<lambda>path. True), write_fails = (\<lambda>path. False), kept_on_error = (\<lambda>path. 0)\<rparr>"


text \<open>A remote side that cannot be reached, and one whose listing is not JSON.\<close>

definition unreachable_api :: api where
  "unreachable_api tr url = Inl RequestException"

definition garbled_api :: api where
  "garbled_api tr url = Inr \<lparr>status_code = 200, json_result = Inl OtherException\<rparr>"

definition example_files_data :: json where
  "example_files_data =
     JObj [(''hdri'', JObj
       [(''1k'', JObj [(''hdr'', JObj [(''size'', JInt 1), (''resolution'', JList [JInt 1920, JInt 1080])]),
                       (''exr'', JObj [(''resolution'', JList [JInt 3840, JInt 2160])])]),
        (''2k'', JObj [(''hdr'', JObj [(''resolution'', JList [JInt 100, JInt 100])])])])]"

text \<open>A file listing whose only resolution has no height.\<close>

definition flat_files_data :: json where
  "flat_files_data =
     JObj [(''hdri'', JObj
       [(''1k'', JObj [(''hdr'', JObj [(''resolution'', JList [JInt 1920, JInt 0])])])])]"

definition example_api :: api where
  "example_api tr url =
     (if url = info_url ''abc'' then
        Inr \<lparr>status_code = 200,
             json_result = Inr (JObj [(''name'', JStr ''Abc''), (''tags'', JList [JStr ''sky''])])\<rparr>
      else Inr \<lparr>status_code = 503, json_result = Inl RequestException\<rparr>)"

definition example_record :: json where
  "example_record =
     JObj [(''name'', JStr ''Abc''),
           (''type'', JInt 0),
           (''date_published'', JInt 0),
           (''download_count'', JInt 0),
           (''files_hash'', JStr []),
           (''authors'', JObj [(''Unknown'', JStr ''All'')]),
           (''categories'', JList []),
           (''tags'', JList [JStr ''sky'']),
           (''max_resolution'', JList [JInt 8192, JInt 4096]),
           (''dimensions'', JList [JInt 30000, JInt 30000]),
           (''thumbnail_url'',
              JStr ''https://cdn.polyhaven.com/asset_img/thumbs/abc.png?width=256&height=256'')]"

definition flaky_api :: api where
  "flaky_api tr url =
     (if url = info_url ''gone'' then Inl RequestException else example_api tr url)"

definition fallback_found_api :: api where
  "fallback_found_api tr url =
     (if url = info_url ''abc'' then Inr \<lparr>status_code = 404, json_result = Inl RequestException\<rparr>
      else if url = info_url ''abc_4k'' then
        Inr \<lparr>status_code = 200, json_result = Inr (JObj [(''download_count'', JInt 7)])\<rparr>
      else if url = files_url ''abc_4k'' then
        Inr \<lparr>status_code = 200, json_result = Inr example_files_data\<rparr>
      else if url = assets_url then
        Inr \<lparr>status_code = 200,
             json_result = Inr (JObj [(''abc'', JObj [(''type'', JInt 0)]),
                                      (''brick'', JObj [(''type'', JInt 1)])])\<rparr>
      else Inr \<lparr>status_code = 404, json_result = Inl RequestException\<rparr>)"

text \<open>The record of the identifier \<^verbatim>\<open>abc\<close> when only \<^verbatim>\<open>abc_4k\<close> is found.\<close>

definition fallback_record :: json where
  "fallback_record =
     JObj [(''name'', JStr ''Abc 4K''),
           (''type'', JInt 0),
           (''date_published'', JInt 0),
           (''download_count'', JInt 7),
           (''files_hash'', JStr []),
           (''authors'', JObj [(''Unknown'', JStr ''All'')]),
           (''categories'', JList []),
           (''tags'', JList []),
           (''max_resolution'', JList [JInt 3840, JInt 2160]),
           (''dimensions'', JList [JInt 30000, JInt 30000]),
           (''thumbnail_url'',
              JStr ''https://cdn.polyhaven.com/asset_img/thumbs/abc_4k.png?width=256&height=256'')]"

text \<open>A collection with text outside ASCII, and a string with a lone surrogate.\<close>

definition unicode_collection :: json where
  "unicode_collection =
     JObj [(''caf'' @ [CHR 0xC3, CHR 0xA9],
            JObj [(''name'', JStr ([CHR 0xE6, CHR 0x97, CHR 0xA5, CHR 0x22] @ ''sun'' @ [CHR 0x22, CHR 0x5C])),
                  (''download_count'', JInt (- 42)),
                  (''tags'', JList [JStr [CHR 0x0A], JList [], JNull, JBool True])])]"

definition surrogate_collection :: json where
  "surrogate_collection = JObj [(''abc'', JStr [CHR 0xED, CHR 0xA0, CHR 0x80])]"

definition example_url :: string where
  "example_url = ''https://dl.polyhaven.org/file/ph-assets/HDRIs/hdr/4k/abc_4k.hdr''"

definition good_server :: file_server where
  "good_server tr url =
     Inr \<lparr>dl_status = 200, dl_chunks = [''ab'', ''cd'', ''ef''], dl_breaks_after = None\<rparr>"

text \<open>
  A file server whose transfer of three chunks breaks after the first, and one that
  completes the transfer.
\<close>

definition broken_server :: file_server where
  "broken_server tr url =
     Inr \<lparr>dl_status = 200, dl_chunks = [''ab'', ''cd'', ''ef''], dl_breaks_after = Some 1\<rparr>"

text \<open>A file server that cannot be reached.\<close>

definition unreachable_server :: file_server where
  "unreachable_server tr url = Inl RequestException"

section \<open>What one call adds to the trace\<close>

lemma fetch_info_trace:
  "\<exists>es. trace (snd (snd (fetch_info net asset_id w))) = trace w @ Get (info_url asset_id) # es"
  by (auto simp: fetch_info_def requests_get_def Let_def split: sum.splits prod.splits)

lemma fetch_data_trace:
  "\<exists>es. trace (snd (snd (fetch_data net asset_id w))) = trace w @ Get (info_url asset_id) # es"
proof -
  obtain r aid w1 where f: "fetch_info net asset_id w = (r, aid, w1)"
    by (cases "fetch_info net asset_id w") auto
  with fetch_info_trace[of net asset_id w] obtain es where
    t: "trace w1 = trace w @ Get (info_url asset_id) # es" by auto
  show ?thesis
    using f t
    by (auto simp: fetch_data_def requests_get_def split: sum.splits prod.splits)
qed

lemma try_fetch_trace:
  "\<exists>es. trace (snd (snd (try_fetch title net asset_id w))) = trace w @ Get (info_url asset_id) # es"
proof -
  obtain r aid w1 where f: "fetch_data net asset_id w = (r, aid, w1)"
    by (cases "fetch_data net asset_id w") auto
  with fetch_data_trace[of net asset_id w] obtain es where
    t: "trace w1 = trace w @ Get (info_url asset_id) # es" by auto
  show ?thesis
    using f t
    by (auto simp: try_fetch_def split: sum.splits prod.splits option.splits)
qed

lemma retry_loop_trace:
  "\<exists>es. trace (snd (retry_loop title net max_retries remaining attempt asset_id w)) = trace w @ es"
proof (induction remaining arbitrary: attempt asset_id w)
  case 0
  then show ?case by simp
next
  case (Suc k)
  obtain r aid w1 where f: "try_fetch title net asset_id w = (r, aid, w1)"
    by (cases "try_fetch title net asset_id w") auto
  with try_fetch_trace[of title net asset_id w] obtain es where
    t: "trace w1 = trace w @ Get (info_url asset_id) # es" by auto
  from Suc.IH[of "attempt + 1" aid "time_sleep 1 w1"] obtain es' where
    "trace (snd (retry_loop title net max_retries k (attempt + 1) aid (time_sleep 1 w1)))
       = trace w1 @ Sleep 1 # es'"
    by (auto simp: time_sleep_def)
  with f t show ?case
    by (auto split: sum.splits error.splits)
qed

lemma retry_loop_first_request:
  "\<exists>es. trace (snd (retry_loop title net max_retries (Suc k) attempt asset_id w))
         = trace w @ Get (info_url asset_id) # es"
proof -
  obtain r aid w1 where f: "try_fetch title net asset_id w = (r, aid, w1)"
    by (cases "try_fetch title net asset_id w") auto
  with try_fetch_trace[of title net asset_id w] obtain es where
    t: "trace w1 = trace w @ Get (info_url asset_id) # es" by auto
  from retry_loop_trace[of title net max_retries k "attempt + 1" aid "time_sleep 1 w1"]
  obtain es' where
    "trace (snd (retry_loop title net max_retries k (attempt + 1) aid (time_sleep 1 w1)))
       = trace w1 @ Sleep 1 # es'"
    by (auto simp: time_sleep_def)
  with f t show ?thesis
    by (auto split: sum.splits error.splits)
qed

lemma process_assets_trace:
  "\<exists>es. trace (snd (process_assets title net items assets_data w)) = trace w @ es"
proof (induction items arbitrary: assets_data w)
  case Nil
  then show ?case by simp
next
  case (Cons p items)
  obtain asset_id tag where p: "p = (asset_id, tag)" by (cases p)
  obtain info w1 where g: "get_asset_info title net asset_id 3 w = (info, w1)"
    by (cases "get_asset_info title net asset_id 3 w") auto
  from retry_loop_trace[of title net 3 "nat 3" 0 asset_id w] g obtain es where
    t: "trace w1 = trace w @ es" by (auto simp: get_asset_info_def)
  define acc where "acc = (case info of
               Some info \<Rightarrow>
                 if truthy info then AList.update asset_id info assets_data else assets_data
             | None \<Rightarrow> assets_data)"
  from Cons.IH[of acc "time_sleep 1 w1"] obtain es' where
    "trace (snd (process_assets title net items acc (time_sleep 1 w1))) = trace w1 @ Sleep 1 # es'"
    by (auto simp: time_sleep_def)
  with g t show ?case by (simp add: p acc_def)
qed

lemma process_assets_first_request:
  "\<exists>es. trace (snd (process_assets title net ((asset_id, tag) # rest) assets_data w))
         = trace w @ Get (info_url asset_id) # es"
proof -
  obtain info w1 where g: "get_asset_info title net asset_id 3 w = (info, w1)"
    by (cases "get_asset_info title net asset_id 3 w") auto
  from retry_loop_first_request[of title net 3 2 0 asset_id w] g obtain es where
    t: "trace w1 = trace w @ Get (info_url asset_id) # es"
    by (auto simp: get_asset_info_def numeral_3_eq_3)
  define acc where "acc = (case info of
               Some info \<Rightarrow>
                 if truthy info then AList.update asset_id info assets_data else assets_data
             | None \<Rightarrow> assets_data)"
  from process_assets_trace[of title net rest acc "time_sleep 1 w1"] obtain es' where
    "trace (snd (process_assets title net rest acc (time_sleep 1 w1))) = trace w1 @ Sleep 1 # es'"
    by (auto simp: time_sleep_def)
  with g t show ?thesis by (simp add: acc_def)
qed

section \<open>The keys of the collection\<close>

lemma process_assets_keys:
  "fst ` set (fst (process_assets title net items assets_data w))
     \<subseteq> fst ` set assets_data \<union> fst ` set items"
proof (induction items arbitrary: assets_data w)
  case Nil
  then show ?case by simp
next
  case (Cons p items)
  obtain asset_id tag where p: "p = (asset_id, tag)" by (cases p)
  obtain info w1 where g: "get_asset_info title net asset_id 3 w = (info, w1)"
    by (cases "get_asset_info title net asset_id 3 w") auto
  define acc where "acc = (case info of
               Some info \<Rightarrow>
                 if truthy info then AList.update asset_id info assets_data else assets_data
             | None \<Rightarrow> assets_data)"
  define w2 where "w2 = time_sleep 1 w1"
  have a: "fst ` set acc \<subseteq> insert asset_id (fst ` set assets_data)"
    by (auto simp: acc_def dom_update split: option.splits if_splits)
  have b: "fst ` set (fst (process_assets title net items acc w2))
     \<subseteq> fst ` set acc \<union> fst ` set items"
    by (rule Cons.IH)
  have c: "fst ` set (p # items) = insert asset_id (fst ` set items)"
    by (simp add: p)
  have d: "process_assets title net (p # items) assets_data w
      = process_assets title net items acc w2"
    using g by (simp add: p acc_def w2_def)
  show ?case unfolding d c using a b by blast
qed

section \<open>The listing\<close>

lemma filter_hdri_keys:
  "fst ` set (filter_hdri items acc) = fst ` set acc \<union> {k. \<exists>v. (k, v) \<in> set items \<and> is_hdri v}"
proof (induction items arbitrary: acc)
  case Nil
  then show ?case by simp
next
  case (Cons p items)
  obtain k v where p: "p = (k, v)" by (cases p)
  show ?case
    unfolding p by (auto simp: Cons.IH dom_update)
qed

lemma set_update_subset: "set (AList.update k v al) \<subseteq> insert (k, v) (set al)"
  by (induction al) auto

lemma filter_hdri_values:
  "(\<forall>(k, v) \<in> set acc. v = JStr ''hdri'') \<Longrightarrow>
   (\<forall>(k, v) \<in> set (filter_hdri items acc). v = JStr ''hdri'')"
proof (induction items arbitrary: acc)
  case Nil
  then show ?case by simp
next
  case (Cons p items)
  obtain k v where p: "p = (k, v)" by (cases p)
  have u: "\<forall>(k', v') \<in> set (AList.update k (JStr ''hdri'') acc). v' = JStr ''hdri''"
    using Cons.prems set_update_subset[of k "JStr ''hdri''" acc] by blast
  show ?case
  proof (cases "is_hdri v")
    case True
    with Cons.IH[OF u] show ?thesis by (simp add: p)
  next
    case False
    with Cons.IH[OF Cons.prems] show ?thesis by (simp add: p)
  qed
qed

lemma listing_success:
  assumes "net (trace w) assets_url = Inr r"
    and "\<not> (400 \<le> status_code r \<and> status_code r < 600)"
    and "json_result r = Inr (JObj all_assets)"
  shows "\<exists>kvs. get_asset_list net w = (JObj kvs, w\<lparr>trace := trace w @ [Get assets_url]\<rparr>) \<and>
           fst ` set kvs = {k. \<exists>v. (k, v) \<in> set all_assets \<and> is_hdri v} \<and>
           (\<forall>(k, v) \<in> set kvs. v = JStr ''hdri'')"
proof -
  have "get_asset_list net w =
      (JObj (filter_hdri all_assets []), w\<lparr>trace := trace w @ [Get assets_url]\<rparr>)"
    using assms
    by (simp add: get_asset_list_def list_assets_body_def requests_get_def raise_for_status_def)
  moreover have "fst ` set (filter_hdri all_assets []) = {k. \<exists>v. (k, v) \<in> set all_assets \<and> is_hdri v}"
    by (simp add: filter_hdri_keys)
  moreover have "\<forall>(k, v) \<in> set (filter_hdri all_assets []). v = JStr ''hdri''"
    by (rule filter_hdri_values) simp
  ultimately show ?thesis by blast
qed

text \<open>
  Claim C2.  When the listing request raises, or its body cannot be parsed, the handler
  of \<^verbatim>\<open>get_asset_list\<close> returns the empty list \<^verbatim>\<open>[]\<close>, which is not the empty dict: the
  value has another shape than the dict of the success path.
\<close>

theorem listing_failure_returns_list:
  "get_asset_list unreachable_api w = (JList [], w\<lparr>trace := trace w @ [Get assets_url]\<rparr>) \<and>
   get_asset_list garbled_api w = (JList [], w\<lparr>trace := trace w @ [Get assets_url]\<rparr>) \<and>
   JList [] \<noteq> JObj []"
  by (simp add: get_asset_list_def list_assets_body_def requests_get_def raise_for_status_def
      unreachable_api_def garbled_api_def)

section \<open>Retries after transport failures\<close>

lemma attempt_history_Suc:
  "attempt_history url (Suc k) = Get url # Sleep 1 # attempt_history url k"
  by (simp add: attempt_history_def)

lemma try_fetch_transport:
  assumes "net (trace w) (info_url asset_id) = Inl RequestException"
  shows "try_fetch title net asset_id w =
           (Inl RequestException, asset_id, w\<lparr>trace := trace w @ [Get (info_url asset_id)]\<rparr>)"
  using assms by (simp add: try_fetch_def fetch_data_def fetch_info_def requests_get_def)

lemma retry_loop_transport:
  assumes "\<forall>k < remaining.
             net (trace w @ attempt_history (info_url asset_id) k) (info_url asset_id)
               = Inl RequestException"
    and "attempt + int remaining = max_retries"
  shows "retry_loop title net max_retries remaining attempt asset_id w =
           (None, w\<lparr>trace := trace w @ retry_trace (info_url asset_id) remaining\<rparr>)"
  using assms
proof (induction remaining arbitrary: attempt w)
  case 0
  then show ?case by simp
next
  case (Suc k)
  let ?url = "info_url asset_id"
  from Suc.prems(1) have "net (trace w @ attempt_history ?url 0) ?url = Inl RequestException"
    by blast
  then have "net (trace w) ?url = Inl RequestException"
    by (simp add: attempt_history_def)
  then have tf: "try_fetch title net asset_id w =
           (Inl RequestException, asset_id, w\<lparr>trace := trace w @ [Get ?url]\<rparr>)"
    by (rule try_fetch_transport)
  show ?case
  proof (cases k)
    case 0
    with Suc.prems have "attempt = max_retries - 1" by simp
    with 0 tf show ?thesis by (simp add: attempt_history_def)
  next
    case (Suc j)
    let ?w = "time_sleep 1 (w\<lparr>trace := trace w @ [Get ?url]\<rparr>)"
    from Suc Suc.prems have ne: "attempt \<noteq> max_retries - 1"
      and nx: "(attempt + 1) + int k = max_retries"
      by simp_all
    have h: "\<forall>i < k. net (trace ?w @ attempt_history ?url i) ?url = Inl RequestException"
    proof (intro allI impI)
      fix i assume "i < k"
      then have "Suc i < Suc k" by simp
      with Suc.prems(1) have "net (trace w @ attempt_history ?url (Suc i)) ?url = Inl RequestException"
        by blast
      then show "net (trace ?w @ attempt_history ?url i) ?url = Inl RequestException"
        by (simp add: attempt_history_Suc time_sleep_def)
    qed
    have "retry_loop title net max_retries k (attempt + 1) asset_id ?w =
           (None, ?w\<lparr>trace := trace ?w @ retry_trace ?url k\<rparr>)"
      using h nx by (rule Suc.IH)
    moreover have "trace ?w @ retry_trace ?url k = trace w @ retry_trace ?url (Suc k)"
      using Suc by (simp add: attempt_history_Suc time_sleep_def)
    ultimately show ?thesis
      using tf ne by (simp add: time_sleep_def)
  qed
qed

lemma get_asset_info_transport:
  assumes "\<forall>k < nat max_retries.
             net (trace w @ attempt_history (info_url asset_id) k) (info_url asset_id)
               = Inl RequestException"
  shows "get_asset_info title net asset_id max_retries w =
           (None, w\<lparr>trace := trace w @ retry_trace (info_url asset_id) (nat max_retries)\<rparr>)"
proof (cases "0 \<le> max_retries")
  case True
  then have "0 + int (nat max_retries) = max_retries" by simp
  with assms show ?thesis
    unfolding get_asset_info_def by (rule retry_loop_transport)
next
  case False
  then show ?thesis by (simp add: get_asset_info_def)
qed

text \<open>
  Claim C1.  When each of the info requests that \<^verbatim>\<open>get_asset_info\<close> attempts for the
  identifier raises a transport exception, it makes \<open>max_retries\<close> attempts with a pause
  of one second between two of them and then returns \<^verbatim>\<open>None\<close>; nothing is raised.  In
  the loop of \<^verbatim>\<open>main\<close>, where \<open>max_retries\<close> is 3, the collection is then left as it
  was and the loop goes on after its pause: the next event is the info request for the
  next identifier.  An identifier that is listed once is not a key of the final
  collection.
\<close>

theorem transport_failure_retried_then_none:
  assumes "\<forall>k < nat max_retries.
             net (trace w @ attempt_history (info_url asset_id) k) (info_url asset_id)
               = Inl RequestException"
  shows "get_asset_info title net asset_id max_retries w =
           (None, w\<lparr>trace := trace w @ retry_trace (info_url asset_id) (nat max_retries)\<rparr>)
       \<and> (max_retries = 3 \<longrightarrow>
            process_assets title net ((asset_id, tag) # rest) assets_data w =
              process_assets title net rest assets_data
                (time_sleep 1 (w\<lparr>trace := trace w @ retry_trace (info_url asset_id) 3\<rparr>))
          \<and> process_assets title net [(asset_id, tag)] assets_data w =
              (assets_data, time_sleep 1 (w\<lparr>trace := trace w @ retry_trace (info_url asset_id) 3\<rparr>))
          \<and> (\<forall>next_id next_tag others. rest = (next_id, next_tag) # others \<longrightarrow>
                (\<exists>es. trace (snd (process_assets title net ((asset_id, tag) # rest) assets_data w)) =
                   trace w @ retry_trace (info_url asset_id) 3 @ [Sleep 1]
                     @ Get (info_url next_id) # es))
          \<and> (asset_id \<notin> fst ` set assets_data \<and> asset_id \<notin> fst ` set rest \<longrightarrow>
                asset_id \<notin> fst ` set (fst (process_assets title net ((asset_id, tag) # rest)
                                               assets_data w))))"
proof -
  let ?w3 = "time_sleep 1 (w\<lparr>trace := trace w @ retry_trace (info_url asset_id) 3\<rparr>)"
  have g: "get_asset_info title net asset_id max_retries w =
           (None, w\<lparr>trace := trace w @ retry_trace (info_url asset_id) (nat max_retries)\<rparr>)"
    using assms by (rule get_asset_info_transport)
  {
    assume m: "max_retries = 3"
    with g have g3: "get_asset_info title net asset_id 3 w =
           (None, w\<lparr>trace := trace w @ retry_trace (info_url asset_id) 3\<rparr>)"
      by (simp add: numeral_3_eq_3)
    have step: "\<And>r. process_assets title net ((asset_id, tag) # r) assets_data w =
              process_assets title net r assets_data ?w3"
      using g3 by simp
    have one: "process_assets title net [(asset_id, tag)] assets_data w = (assets_data, ?w3)"
      using step[of "[]"] by simp
    have nxt: "\<forall>next_id next_tag others. rest = (next_id, next_tag) # others \<longrightarrow>
                (\<exists>es. trace (snd (process_assets title net ((asset_id, tag) # rest) assets_data w)) =
                   trace w @ retry_trace (info_url asset_id) 3 @ [Sleep 1]
                     @ Get (info_url next_id) # es)"
    proof (intro allI impI)
      fix next_id next_tag others
      assume r: "rest = (next_id, next_tag) # others"
      from process_assets_first_request[of title net next_id next_tag others assets_data ?w3]
      obtain es where "trace (snd (process_assets title net rest assets_data ?w3)) =
          trace ?w3 @ Get (info_url next_id) # es"
        unfolding r by blast
      then show "\<exists>es. trace (snd (process_assets title net ((asset_id, tag) # rest) assets_data w)) =
                   trace w @ retry_trace (info_url asset_id) 3 @ [Sleep 1]
                     @ Get (info_url next_id) # es"
        unfolding step by (simp add: time_sleep_def)
    qed
    have excl: "asset_id \<notin> fst ` set assets_data \<and> asset_id \<notin> fst ` set rest \<longrightarrow>
                asset_id \<notin> fst ` set (fst (process_assets title net ((asset_id, tag) # rest)
                                               assets_data w))"
      unfolding step using process_assets_keys[of title net rest assets_data ?w3] by blast
    note step[of rest] one nxt excl
  }
  with g show ?thesis by blast
qed

theorem transport_failure_witness:
  "get_asset_info ascii_title flaky_api ''gone'' 3 w0 =
     (None, w0\<lparr>trace := [Get (info_url ''gone''), Sleep 1,
                          Get (info_url ''gone''), Sleep 1,
                          Get (info_url ''gone'')]\<rparr>) \<and>
   process_assets ascii_title flaky_api [(''gone'', JStr ''hdri''), (''abc'', JStr ''hdri'')] [] w0 =
     ([(''abc'', example_record)],
      w0\<lparr>trace := [Get (info_url ''gone''), Sleep 1,
                    Get (info_url ''gone''), Sleep 1,
                    Get (info_url ''gone''), Sleep 1,
                    Get (info_url ''abc''), Get (files_url ''abc''), Sleep 1]\<rparr>)"
proof -
  have h: "\<forall>k < nat 3. flaky_api (trace w0 @ attempt_history (info_url ''gone'') k) (info_url ''gone'')
               = Inl RequestException"
    by (simp add: flaky_api_def)
  have e: "get_asset_info ascii_title flaky_api ''abc'' 3
             (time_sleep 1 (w0\<lparr>trace := trace w0 @ retry_trace (info_url ''gone'') 3\<rparr>)) =
     (Some example_record,
      w0\<lparr>trace := [Get (info_url ''gone''), Sleep 1,
                    Get (info_url ''gone''), Sleep 1,
                    Get (info_url ''gone''), Sleep 1,
                    Get (info_url ''abc''), Get (files_url ''abc'')]\<rparr>)"
    by (simp add: get_asset_info_def numeral_3_eq_3 try_fetch_def fetch_data_def fetch_info_def
        requests_get_def flaky_api_def example_api_def info_url_def files_url_def API_URL_def
        raise_for_status_def files_data_of_def build_asset_info_def compute_max_res_def
        copy_authors_def format_asset_info_def dict_get_def default_authors_def
        max_resolution_field_def py_eq_int_def default_max_resolution_def
        default_thumbnail_url_def example_record_def w0_def time_sleep_def attempt_history_def)
  from transport_failure_retried_then_none[where net = flaky_api and w = w0
      and asset_id = "''gone''" and max_retries = 3 and title = ascii_title
      and tag = "JStr ''hdri''" and rest = "[(''abc'', JStr ''hdri'')]" and assets_data = "[]"]
    h e
  show ?thesis
    by (simp add: numeral_3_eq_3 attempt_history_def w0_def time_sleep_def example_record_def)
qed

section \<open>The fallback identifier\<close>






section \<open>Where a returned record comes from\<close>

lemma try_fetch_SomeD:
  assumes "try_fetch title net asset_id w = (Inr (Some info), aid, w')"
  shows "\<exists>tr r data tr' fr files_data.
           net tr (info_url aid) = Inr r \<and> json_result r = Inr data \<and>
           net tr' (files_url aid) = Inr fr \<and> files_data_of fr = Inr files_data \<and>
           build_asset_info title data files_data aid = Inr info"
proof -
  from assms obtain data files_data where
    fd: "fetch_data net asset_id w = (Inr (Some (data, files_data)), aid, w')"
    and b: "build_asset_info title data files_data aid = Inr info"
    by (auto simp: try_fetch_def split: prod.splits sum.splits option.splits)
  from fd obtain r w1 where
    fi: "fetch_info net asset_id w = (Inr r, aid, w1)" and j: "json_result r = Inr data"
    and rest: "(case requests_get net (files_url aid) w1 of
                         (Inl e, w2) \<Rightarrow> (Inl e, aid, w2)
                       | (Inr files_response, w2) \<Rightarrow>
                           (case files_data_of files_response of
                              Inl e \<Rightarrow> (Inl e, aid, w2)
                            | Inr files_data \<Rightarrow>
                                (Inr (Some (data, files_data)), aid, w2))) = (Inr (Some (data, files_data)), aid, w')"
    by (auto simp: fetch_data_def split: prod.splits sum.splits if_splits)
  from fi have "\<exists>tr. net tr (info_url aid) = Inr r"
    by (auto simp: fetch_info_def requests_get_def Let_def split: prod.splits sum.splits if_splits)
  moreover from rest have "\<exists>tr' fr. net tr' (files_url aid) = Inr fr \<and> files_data_of fr = Inr files_data"
    by (auto simp: requests_get_def split: prod.splits sum.splits)
  ultimately show ?thesis using j b by blast
qed

lemma retry_loop_SomeD:
  assumes "retry_loop title net max_retries remaining attempt asset_id w = (Some info, w')"
  shows "\<exists>asset_id0 w0 aid. try_fetch title net asset_id0 w0 = (Inr (Some info), aid, w')"
  using assms
proof (induction remaining arbitrary: attempt asset_id w)
  case 0
  then show ?case by simp
next
  case (Suc k)
  obtain res aid1 w1 where tf: "try_fetch title net asset_id w = (res, aid1, w1)"
    by (cases "try_fetch title net asset_id w") auto
  show ?case
  proof (cases res)
    case (Inr result)
    with tf Suc.prems have "result = Some info" "w1 = w'" by simp_all
    with tf Inr show ?thesis by blast
  next
    case (Inl e)
    show ?thesis
    proof (cases e)
      case RequestException
      with tf Inl Suc.prems have
        "retry_loop title net max_retries k (attempt + 1) aid1 (time_sleep 1 w1) = (Some info, w')"
        by (simp split: if_splits)
      then show ?thesis by (rule Suc.IH)
    next
      case OtherException
      with tf Inl Suc.prems show ?thesis by simp
    qed
  qed
qed

lemma get_asset_info_SomeD:
  assumes "get_asset_info title net asset_id max_retries w = (Some info, w')"
  shows "\<exists>aid tr r data tr' fr files_data.
           net tr (info_url aid) = Inr r \<and> json_result r = Inr data \<and>
           net tr' (files_url aid) = Inr fr \<and> files_data_of fr = Inr files_data \<and>
           build_asset_info title data files_data aid = Inr info"
proof -
  from assms obtain asset_id0 w0 aid where
    "try_fetch title net asset_id0 w0 = (Inr (Some info), aid, w')"
    unfolding get_asset_info_def by (blast dest: retry_loop_SomeD)
  from try_fetch_SomeD[OF this] show ?thesis by blast
qed

section \<open>The scan for the largest resolution\<close>

lemma scanned_refl: "area m0 = Some a0 \<Longrightarrow> scanned [] m0 m0"
  by (auto simp: scanned_def)

lemma scanned_trans:
  assumes "scanned ps m0 m1" "scanned qs m1 m2"
  shows "scanned (ps @ qs) m0 m2"
proof -
  from assms(1) obtain a0 a1 where
    p1: "area m0 = Some a0" and p2: "area m1 = Some a1" and p3: "a0 \<le> a1"
    and p4: "\<forall>(w, h) \<in> set ps. w * h \<le> a1"
    and p5: "m1 = m0 \<or> a0 < a1 \<and>
      (\<exists>w h. py_int (fst m1) = Some w \<and> py_int (snd m1) = Some h \<and> (w, h) \<in> set ps)"
    unfolding scanned_def by blast
  from assms(2) obtain b1 a2 where
    q1: "area m1 = Some b1" and q2: "area m2 = Some a2" and q3: "b1 \<le> a2"
    and q4: "\<forall>(w, h) \<in> set qs. w * h \<le> a2"
    and q5: "m2 = m1 \<or> b1 < a2 \<and>
      (\<exists>w h. py_int (fst m2) = Some w \<and> py_int (snd m2) = Some h \<and> (w, h) \<in> set qs)"
    unfolding scanned_def by blast
  from p2 q1 have e: "b1 = a1" by simp
  have r3: "a0 \<le> a2" using p3 q3 e by simp
  have r4: "\<forall>(w, h) \<in> set (ps @ qs). w * h \<le> a2"
  proof (intro ballI, clarify)
    fix w h assume "(w, h) \<in> set (ps @ qs)"
    then consider "(w, h) \<in> set ps" | "(w, h) \<in> set qs" by auto
    then show "w * h \<le> a2"
    proof cases
      case 1
      with p4 have "w * h \<le> a1" by blast
      with q3 e show ?thesis by simp
    next
      case 2
      with q4 show ?thesis by blast
    qed
  qed
  have r5: "m2 = m0 \<or> a0 < a2 \<and>
      (\<exists>w h. py_int (fst m2) = Some w \<and> py_int (snd m2) = Some h \<and> (w, h) \<in> set (ps @ qs))"
  proof (cases "m2 = m1")
    case True
    show ?thesis
    proof (cases "m1 = m0")
      case True
      with \<open>m2 = m1\<close> show ?thesis by simp
    next
      case False
      with p5 obtain w h where "a0 < a1" "py_int (fst m1) = Some w" "py_int (snd m1) = Some h"
        "(w, h) \<in> set ps" by blast
      moreover from True p2 q2 have "a2 = a1" by simp
      ultimately show ?thesis using True by auto
    qed
  next
    case False
    with q5 obtain w h where "b1 < a2" "py_int (fst m2) = Some w" "py_int (snd m2) = Some h"
        "(w, h) \<in> set qs" by blast
    with p3 e show ?thesis by auto
  qed
  show ?thesis unfolding scanned_def using p1 q2 r3 r4 r5 by blast
qed

lemma area_SomeD: "area (w, h) = Some a \<Longrightarrow> \<exists>x y. py_int w = Some x \<and> py_int h = Some y \<and> a = x * y"
  by (auto simp: area_def split: option.splits)

lemma scan_file_step:
  assumes "py_in ''resolution'' file_info = Inr True"
    and "py_getitem file_info ''resolution'' = Inr r"
    and "truthy r" and "unpack2 r = Inr (w, h)" and "area_gt (w, h) m0 = Inr b"
  shows "scanned (pairs_of_file file_info) m0 (if b then (w, h) else m0)"
proof -
  from assms(2) obtain kvs where fi: "file_info = JObj kvs" and mo: "map_of kvs ''resolution'' = Some r"
    by (cases file_info) (auto split: option.splits)
  from assms(4) have r: "r = JList [w, h]"
    by (cases r rule: unpack2.cases) auto
  from assms(5) obtain x y where ax: "area (w, h) = Some x" and ay: "area m0 = Some y" and b: "b = (x > y)"
    by (auto simp: area_gt_def split: option.splits)
  from area_SomeD[OF ax] obtain wi hi where wi: "py_int w = Some wi" "py_int h = Some hi" "x = wi * hi"
    by blast
  have ps: "pairs_of_file file_info = [(wi, hi)]"
    using fi mo r wi by (simp add: pairs_of_file_def)
  show ?thesis
    unfolding scanned_def ps using ax ay b wi by auto
qed

lemma scan_file_skip:
  assumes "py_in ''resolution'' file_info = Inr False \<or>
           (py_getitem file_info ''resolution'' = Inr r \<and> \<not> truthy r)"
    and "area m0 = Some a0"
  shows "pairs_of_file file_info = []"
  using assms
  apply (cases file_info)
       apply (auto simp: pairs_of_file_def split: option.splits)
   apply (metis domIff dom_map_of_conv_image_fst image_set option.distinct(1))
  apply (cases r rule: pair_of_entry.cases; simp)
  done

lemma scan_formats_scanned:
  assumes "scan_formats fs m0 = Inr m" "area m0 = Some a0"
  shows "scanned (pairs_of_formats (JObj fs)) m0 m"
  using assms
proof (induction fs arbitrary: m0 a0)
  case Nil
  then show ?case by (auto simp: pairs_of_formats_def intro: scanned_refl)
next
  case (Cons p fs)
  obtain format_name file_info where p: "p = (format_name, file_info)" by (cases p)
  have split: "pairs_of_formats (JObj (p # fs)) = pairs_of_file file_info @ pairs_of_formats (JObj fs)"
    by (simp add: pairs_of_formats_def p)
  from Cons.prems(1) obtain m1 where m1: "scan_formats fs m1 = Inr m"
    and st: "scanned (pairs_of_file file_info) m0 m1"
  proof -
    assume that: "\<And>m1. scan_formats fs m1 = Inr m \<Longrightarrow> scanned (pairs_of_file file_info) m0 m1 \<Longrightarrow> thesis"
    from Cons.prems(1) obtain c where c: "py_in ''resolution'' file_info = Inr c"
      by (auto simp: p split: sum.splits)
    show thesis
    proof (cases c)
      case False
      with c Cons.prems have "scan_formats fs m0 = Inr m" "pairs_of_file file_info = []"
        using scan_file_skip[of file_info undefined m0 a0] by (auto simp: p)
      then show thesis using that[of m0] scanned_refl[OF Cons.prems(2)] by simp
    next
      case True
      with c Cons.prems(1) obtain r where r: "py_getitem file_info ''resolution'' = Inr r"
        by (auto simp: p split: sum.splits)
      show thesis
      proof (cases "truthy r")
        case False
        with True c r Cons.prems have "scan_formats fs m0 = Inr m" "pairs_of_file file_info = []"
          using scan_file_skip[of file_info r m0 a0] by (auto simp: p)
        then show thesis using that[of m0] scanned_refl[OF Cons.prems(2)] by simp
      next
        case tr: True
        with True c r Cons.prems(1) obtain w h b where
          u: "unpack2 r = Inr (w, h)" and g: "area_gt (w, h) m0 = Inr b"
          and k: "scan_formats fs (if b then (w, h) else m0) = Inr m"
          by (auto simp: p split: sum.splits prod.splits)
        from scan_file_step[OF _ r tr u g] c True
        have "scanned (pairs_of_file file_info) m0 (if b then (w, h) else m0)" by simp
        with k that show thesis by blast
      qed
    qed
  qed
  from st obtain a1 where "area m1 = Some a1" by (auto simp: scanned_def)
  from Cons.IH[OF m1 this] st show ?case
    unfolding split by (rule scanned_trans[rotated])
qed

lemma scan_resolutions_scanned:
  assumes "scan_resolutions rs m0 = Inr m" "area m0 = Some a0"
  shows "scanned (concat (map (\<lambda>(res, formats). pairs_of_formats formats) rs)) m0 m"
  using assms
proof (induction rs arbitrary: m0 a0)
  case Nil
  then show ?case by (auto intro: scanned_refl)
next
  case (Cons p rs)
  obtain res formats where p: "p = (res, formats)" by (cases p)
  from Cons.prems(1) obtain fs m1 where f: "formats = JObj fs"
    and s1: "scan_formats fs m0 = Inr m1" and s2: "scan_resolutions rs m1 = Inr m"
    by (cases formats) (auto simp: p split: sum.splits)
  from scan_formats_scanned[OF s1 Cons.prems(2)] have st: "scanned (pairs_of_formats formats) m0 m1"
    by (simp add: f)
  then obtain a1 where "area m1 = Some a1" by (auto simp: scanned_def)
  from Cons.IH[OF s2 this] st show ?case
    by (simp add: p) (rule scanned_trans[rotated])
qed

lemma compute_max_res_scanned:
  assumes "compute_max_res files_data = Inr m"
  shows "scanned (resolution_pairs files_data) (JInt 0, JInt 0) m"
proof -
  have a0: "area (JInt 0, JInt 0) = Some 0" by (simp add: area_def)
  from assms obtain c where c: "py_in ''hdri'' files_data = Inr c"
    by (auto simp: compute_max_res_def split: sum.splits)
  show ?thesis
  proof (cases c)
    case False
    with c assms have m: "m = (JInt 0, JInt 0)" by (simp add: compute_max_res_def)
    have "resolution_pairs files_data = []"
    proof (cases files_data)
      case (JObj tops)
      with c False have "map_of tops ''hdri'' = None"
        by (simp add: map_of_eq_None_iff)
      with JObj show ?thesis by (simp add: resolution_pairs_def)
    qed (simp_all add: resolution_pairs_def)
    with m a0 show ?thesis by (simp add: scanned_refl)
  next
    case True
    with c assms obtain hdri rs where g: "py_getitem files_data ''hdri'' = Inr hdri"
      and h: "hdri = JObj rs" and s: "scan_resolutions rs (JInt 0, JInt 0) = Inr m"
      apply (simp add: compute_max_res_def split: sum.splits)
      subgoal for x by (cases x) auto
      done
    from g obtain tops where t: "files_data = JObj tops" "map_of tops ''hdri'' = Some hdri"
      by (cases files_data) (auto split: option.splits)
    have "resolution_pairs files_data = concat (map (\<lambda>(res, formats). pairs_of_formats formats) rs)"
      using t h by (simp add: resolution_pairs_def)
    with scan_resolutions_scanned[OF s a0] show ?thesis by simp
  qed
qed

lemma build_asset_info_fields:
  assumes "build_asset_info title data files_data asset_id = Inr info"
  shows "\<exists>upstream authors max_res.
           data = JObj upstream \<and> compute_max_res files_data = Inr max_res \<and>
           copy_authors data = Inr authors \<and>
           info = format_asset_info title upstream authors max_res asset_id"
  using assms by (cases data) (auto simp: build_asset_info_def split: sum.splits)

lemma resolution_ok_truthy:
  assumes "resolution_ok r" "truthy r"
  shows "\<exists>a b x y. r = JList [a, b] \<and> py_int a = Some x \<and> py_int b = Some y"
  using assms by (cases r rule: resolution_ok.cases) auto

lemma scan_formats_total:
  assumes "list_all (\<lambda>(format_name, file_info). file_info_ok file_info) fs"
    and "area m0 = Some a0"
  shows "\<exists>m a. scan_formats fs m0 = Inr m \<and> area m = Some a"
  using assms
proof (induction fs arbitrary: m0 a0)
  case Nil
  then show ?case by simp
next
  case (Cons p fs)
  obtain format_name file_info where p: "p = (format_name, file_info)" by (cases p)
  from Cons.prems(1) have ok: "file_info_ok file_info"
    and rest: "list_all (\<lambda>(format_name, file_info). file_info_ok file_info) fs"
    by (simp_all add: p)
  from ok obtain kvs where fi: "file_info = JObj kvs"
    by (cases file_info) (simp_all add: file_info_ok_def)
  show ?case
  proof (cases "map_of kvs ''resolution''")
    case None
    then have "py_in ''resolution'' file_info = Inr False"
      by (simp add: fi map_of_eq_None_iff)
    with Cons.IH[OF rest Cons.prems(2)] show ?thesis by (simp add: p)
  next
    case (Some r)
    then have i: "py_in ''resolution'' file_info = Inr True"
      and g: "py_getitem file_info ''resolution'' = Inr r"
      by (auto simp: fi dest: map_of_SomeD intro: rev_image_eqI)
    from ok Some have rok: "resolution_ok r" by (simp add: fi file_info_ok_def)
    show ?thesis
    proof (cases "truthy r")
      case False
      with i g Cons.IH[OF rest Cons.prems(2)] show ?thesis by (simp add: p)
    next
      case True
      from resolution_ok_truthy[OF rok True] obtain a b x y where
        r: "r = JList [a, b]" "py_int a = Some x" "py_int b = Some y" by blast
      then have ar: "area (a, b) = Some (x * y)" by (simp add: area_def)
      define m1 where "m1 = (if x * y > a0 then (a, b) else m0)"
      have "\<exists>a1. area m1 = Some a1" using ar Cons.prems(2) by (simp add: m1_def)
      then obtain a1 where "area m1 = Some a1" ..
      from Cons.IH[OF rest this] obtain m a where "scan_formats fs m1 = Inr m" "area m = Some a"
        by blast
      then show ?thesis
        using i g True r ar Cons.prems(2) by (simp add: p area_gt_def m1_def)
    qed
  qed
qed

lemma scan_resolutions_total:
  assumes "list_all (\<lambda>(res, formats). formats_ok formats) rs"
    and "area m0 = Some a0"
  shows "\<exists>m a. scan_resolutions rs m0 = Inr m \<and> area m = Some a"
  using assms
proof (induction rs arbitrary: m0 a0)
  case Nil
  then show ?case by simp
next
  case (Cons p rs)
  obtain res formats where p: "p = (res, formats)" by (cases p)
  from Cons.prems(1) have ok: "formats_ok formats"
    and rest: "list_all (\<lambda>(res, formats). formats_ok formats) rs"
    by (simp_all add: p)
  from ok obtain fs where f: "formats = JObj fs"
    and fok: "list_all (\<lambda>(format_name, file_info). file_info_ok file_info) fs"
    by (cases formats) (simp_all add: formats_ok_def)
  from scan_formats_total[OF fok Cons.prems(2)] obtain m1 a1 where
    s1: "scan_formats fs m0 = Inr m1" "area m1 = Some a1" by blast
  from Cons.IH[OF rest s1(2)] obtain m a where "scan_resolutions rs m1 = Inr m" "area m = Some a"
    by blast
  with s1 show ?case by (simp add: p f)
qed

lemma compute_max_res_total:
  assumes "listing_ok files_data"
  shows "\<exists>m. compute_max_res files_data = Inr m"
proof -
  from assms obtain tops where t: "files_data = JObj tops"
    by (cases files_data) (simp_all add: listing_ok_def)
  have a0: "area (JInt 0, JInt 0) = Some 0" by (simp add: area_def)
  show ?thesis
  proof (cases "map_of tops ''hdri''")
    case None
    then show ?thesis by (simp add: t compute_max_res_def map_of_eq_None_iff)
  next
    case (Some hdri)
    with assms obtain rs where h: "hdri = JObj rs"
      and ok: "list_all (\<lambda>(res, formats). formats_ok formats) rs"
      by (cases hdri) (simp_all add: t listing_ok_def)
    from Some have i: "py_in ''hdri'' files_data = Inr True"
      by (auto simp: t dest: map_of_SomeD intro: rev_image_eqI)
    from scan_resolutions_total[OF ok a0] obtain m where "scan_resolutions rs (JInt 0, JInt 0) = Inr m"
      by blast
    with i Some h show ?thesis by (simp add: t compute_max_res_def)
  qed
qed

lemma max_area_when_positive:
  assumes "\<exists>(w, h) \<in> set (resolution_pairs files_data). 0 < w * h"
  shows "(\<forall>max_res. compute_max_res files_data = Inr max_res \<longrightarrow>
           (\<exists>w h. py_int (fst max_res) = Some w \<and> py_int (snd max_res) = Some h \<and>
              (w, h) \<in> set (resolution_pairs files_data) \<and>
              (\<forall>(w', h') \<in> set (resolution_pairs files_data). w' * h' \<le> w * h) \<and>
              max_resolution_field max_res = JList [fst max_res, snd max_res] \<and>
              (\<forall>title data asset_id info.
                 build_asset_info title data files_data asset_id = Inr info \<longrightarrow>
                 (\<exists>kvs. info = JObj kvs \<and>
                    map_of kvs ''max_resolution'' = Some (JList [fst max_res, snd max_res])))))
       \<and> (listing_ok files_data \<longrightarrow> (\<exists>max_res. compute_max_res files_data = Inr max_res))"
proof -
  {
    fix max_res
    assume c: "compute_max_res files_data = Inr max_res"
    from compute_max_res_scanned[OF c] obtain a where
      a: "area max_res = Some a"
      and le: "\<forall>(w, h) \<in> set (resolution_pairs files_data). w * h \<le> a"
      and d: "max_res = (JInt 0, JInt 0) \<or> 0 < a \<and>
        (\<exists>w h. py_int (fst max_res) = Some w \<and> py_int (snd max_res) = Some h \<and>
               (w, h) \<in> set (resolution_pairs files_data))"
      unfolding scanned_def by (auto simp: area_def)
    from assms le have pos: "0 < a" by force
    with a have "max_res \<noteq> (JInt 0, JInt 0)" by (auto simp: area_def)
    with d obtain w h where wh: "py_int (fst max_res) = Some w" "py_int (snd max_res) = Some h"
      "(w, h) \<in> set (resolution_pairs files_data)" by blast
    with a have aw: "a = w * h" by (simp add: area_def)
    with pos have "w \<noteq> 0" by auto
    with wh have f: "max_resolution_field max_res = JList [fst max_res, snd max_res]"
      by (simp add: max_resolution_field_def py_eq_int_def)
    have r: "\<forall>title data asset_id info.
                 build_asset_info title data files_data asset_id = Inr info \<longrightarrow>
                 (\<exists>kvs. info = JObj kvs \<and>
                    map_of kvs ''max_resolution'' = Some (JList [fst max_res, snd max_res]))"
    proof (intro allI impI)
      fix title data asset_id info
      assume "build_asset_info title data files_data asset_id = Inr info"
      from build_asset_info_fields[OF this] c obtain upstream authors where
        "info = format_asset_info title upstream authors max_res asset_id" by auto
      with f show "\<exists>kvs. info = JObj kvs \<and>
                    map_of kvs ''max_resolution'' = Some (JList [fst max_res, snd max_res])"
        by (simp add: format_asset_info_def)
    qed
    from wh le aw f r
    have "\<exists>w h. py_int (fst max_res) = Some w \<and> py_int (snd max_res) = Some h \<and>
              (w, h) \<in> set (resolution_pairs files_data) \<and>
              (\<forall>(w', h') \<in> set (resolution_pairs files_data). w' * h' \<le> w * h) \<and>
              max_resolution_field max_res = JList [fst max_res, snd max_res] \<and>
              (\<forall>title data asset_id info.
                 build_asset_info title data files_data asset_id = Inr info \<longrightarrow>
                 (\<exists>kvs. info = JObj kvs \<and>
                    map_of kvs ''max_resolution'' = Some (JList [fst max_res, snd max_res])))"
      by blast
  }
  then show ?thesis using compute_max_res_total by blast
qed







section \<open>The largest resolution, for every listing\<close>

lemma no_positive_area:
  assumes "compute_max_res files_data = Inr max_res"
    and "\<not> (\<exists>(w, h) \<in> set (resolution_pairs files_data). 0 < w * h)"
  shows "max_res = (JInt 0, JInt 0)"
proof (rule ccontr)
  assume ne: "max_res \<noteq> (JInt 0, JInt 0)"
  from compute_max_res_scanned[OF assms(1)] ne obtain a w h where
    a: "area max_res = Some a" "0 < a"
    and wh: "py_int (fst max_res) = Some w" "py_int (snd max_res) = Some h"
      "(w, h) \<in> set (resolution_pairs files_data)"
    unfolding scanned_def by (auto simp: area_def)
  from a wh have "0 < w * h" by (simp add: area_def)
  with wh(3) assms(2) show False by blast
qed

lemma record_max_resolution:
  assumes "compute_max_res files_data = Inr max_res"
    and "build_asset_info title data files_data asset_id = Inr info"
  shows "\<exists>kvs. info = JObj kvs \<and> map_of kvs ''max_resolution'' = Some (max_resolution_field max_res)"
proof -
  from build_asset_info_fields[OF assms(2)] assms(1) obtain upstream authors where
    "info = format_asset_info title upstream authors max_res asset_id" by auto
  then show ?thesis by (simp add: format_asset_info_def)
qed

lemma example_max_res: "compute_max_res example_files_data = Inr (JInt 3840, JInt 2160)"
  by (simp add: example_files_data_def compute_max_res_def area_gt_def area_def)

text \<open>
  Claim C4, as amended.  Whenever the scan of a file listing completes: if some listed
  resolution has a positive area, the result is one of the listed pairs, no listed pair
  has a larger area (width times height), and the result is the value of the field
  \<^verbatim>\<open>max_resolution\<close>; if none has, the result is still \<^verbatim>\<open>[0, 0]\<close> and the field is the
  default \<^verbatim>\<open>[8192, 4096]\<close>.  The field of the record is made from the result in this
  way.  The scan completes on every listing of the documented shape.  For the pairs
  (1920, 1080), (3840, 2160) and (100, 100) the result is (3840, 2160).
\<close>

theorem max_resolution_by_area:
  "(\<forall>max_res. compute_max_res files_data = Inr max_res \<longrightarrow>
      ((\<exists>(w, h) \<in> set (resolution_pairs files_data). 0 < w * h) \<longrightarrow>
         (\<exists>w h. py_int (fst max_res) = Some w \<and> py_int (snd max_res) = Some h \<and>
            (w, h) \<in> set (resolution_pairs files_data) \<and>
            (\<forall>(w', h') \<in> set (resolution_pairs files_data). w' * h' \<le> w * h) \<and>
            max_resolution_field max_res = JList [fst max_res, snd max_res]))
    \<and> (\<not> (\<exists>(w, h) \<in> set (resolution_pairs files_data). 0 < w * h) \<longrightarrow>
         max_res = (JInt 0, JInt 0) \<and>
         max_resolution_field max_res = JList [JInt 8192, JInt 4096])
    \<and> (\<forall>title data asset_id info.
         build_asset_info title data files_data asset_id = Inr info \<longrightarrow>
         (\<exists>kvs. info = JObj kvs \<and>
            map_of kvs ''max_resolution'' = Some (max_resolution_field max_res))))
 \<and> (listing_ok files_data \<longrightarrow> (\<exists>max_res. compute_max_res files_data = Inr max_res))
 \<and> compute_max_res example_files_data = Inr (JInt 3840, JInt 2160)
 \<and> resolution_pairs example_files_data = [(1920, 1080), (3840, 2160), (100, 100)]"
proof -
  {
    fix max_res
    assume c: "compute_max_res files_data = Inr max_res"
    have p: "(\<exists>(w, h) \<in> set (resolution_pairs files_data). 0 < w * h) \<longrightarrow>
         (\<exists>w h. py_int (fst max_res) = Some w \<and> py_int (snd max_res) = Some h \<and>
            (w, h) \<in> set (resolution_pairs files_data) \<and>
            (\<forall>(w', h') \<in> set (resolution_pairs files_data). w' * h' \<le> w * h) \<and>
            max_resolution_field max_res = JList [fst max_res, snd max_res])"
    proof
      assume h: "\<exists>(w, h) \<in> set (resolution_pairs files_data). 0 < w * h"
      from max_area_when_positive[OF h] c
      show "\<exists>w h. py_int (fst max_res) = Some w \<and> py_int (snd max_res) = Some h \<and>
            (w, h) \<in> set (resolution_pairs files_data) \<and>
            (\<forall>(w', h') \<in> set (resolution_pairs files_data). w' * h' \<le> w * h) \<and>
            max_resolution_field max_res = JList [fst max_res, snd max_res]"
        by blast
    qed
    have n: "\<not> (\<exists>(w, h) \<in> set (resolution_pairs files_data). 0 < w * h) \<longrightarrow>
         max_res = (JInt 0, JInt 0) \<and>
         max_resolution_field max_res = JList [JInt 8192, JInt 4096]"
    proof
      assume "\<not> (\<exists>(w, h) \<in> set (resolution_pairs files_data). 0 < w * h)"
      from no_positive_area[OF c this]
      show "max_res = (JInt 0, JInt 0) \<and>
         max_resolution_field max_res = JList [JInt 8192, JInt 4096]"
        by (simp add: max_resolution_field_def py_eq_int_def default_max_resolution_def)
    qed
    have r: "\<forall>title data asset_id info.
         build_asset_info title data files_data asset_id = Inr info \<longrightarrow>
         (\<exists>kvs. info = JObj kvs \<and>
            map_of kvs ''max_resolution'' = Some (max_resolution_field max_res))"
      using record_max_resolution[OF c] by blast
    note p n r
  }
  moreover have "listing_ok files_data \<longrightarrow> (\<exists>max_res. compute_max_res files_data = Inr max_res)"
    using compute_max_res_total by blast
  moreover note example_max_res
  moreover have "resolution_pairs example_files_data = [(1920, 1080), (3840, 2160), (100, 100)]"
    by (simp add: example_files_data_def resolution_pairs_def pairs_of_formats_def pairs_of_file_def)
  ultimately show ?thesis by blast
qed

theorem max_resolution_example:
  "compute_max_res example_files_data = Inr (JInt 3840, JInt 2160) \<and>
   resolution_pairs example_files_data = [(1920, 1080), (3840, 2160), (100, 100)] \<and>
   listing_ok example_files_data \<and>
   max_resolution_field (JInt 3840, JInt 2160) = JList [JInt 3840, JInt 2160]"
proof -
  have l: "listing_ok example_files_data"
    by (simp add: example_files_data_def listing_ok_def formats_ok_def file_info_ok_def)
  from max_resolution_by_area[of example_files_data]
  have c: "compute_max_res example_files_data = Inr (JInt 3840, JInt 2160)"
    and p: "resolution_pairs example_files_data = [(1920, 1080), (3840, 2160), (100, 100)]"
    and f: "\<forall>max_res. compute_max_res example_files_data = Inr max_res \<longrightarrow>
      ((\<exists>(w, h) \<in> set (resolution_pairs example_files_data). 0 < w * h) \<longrightarrow>
         max_resolution_field max_res = JList [fst max_res, snd max_res])"
    by blast+
  have "\<exists>(w, h) \<in> set (resolution_pairs example_files_data). 0 < w * h"
    by (simp add: p)
  with f c have "max_resolution_field (JInt 3840, JInt 2160) = JList [JInt 3840, JInt 2160]"
    by auto
  with c p l show ?thesis by simp
qed

theorem max_resolution_counterexample:
  "resolution_pairs flat_files_data = [(1920, 0)] \<and>
   compute_max_res flat_files_data = Inr (JInt 0, JInt 0) \<and>
   compute_max_res flat_files_data \<noteq> Inr (JInt 1920, JInt 0) \<and>
   max_resolution_field (JInt 0, JInt 0) = JList [JInt 8192, JInt 4096] \<and>
   max_resolution_field (JInt 0, JInt 0) \<noteq> JList [JInt 1920, JInt 0]"
  by (simp add: flat_files_data_def resolution_pairs_def pairs_of_formats_def pairs_of_file_def
      compute_max_res_def area_gt_def area_def max_resolution_field_def py_eq_int_def
      default_max_resolution_def)

section \<open>The keys of the final collection\<close>

lemma returned_record_truthy:
  assumes "get_asset_info title net asset_id max_retries w = (Some info, w')"
  shows "truthy info"
proof -
  from get_asset_info_SomeD[OF assms] obtain aid data files_data where
    "build_asset_info title data files_data aid = Inr info" by blast
  from build_asset_info_fields[OF this] show ?thesis
    by (auto simp: format_asset_info_def)
qed

lemma save_to_json_trace: "trace (snd (save_to_json d data filename w)) = trace w"
  by (simp add: save_to_json_def write_text_def split: prod.splits sum.splits)

text \<open>
  Claim C10.  Every key of the collection that \<^verbatim>\<open>main\<close> returns is one of the first 843
  identifiers of the listing.  A record that \<^verbatim>\<open>get_asset_info\<close> returns is stored under
  the identifier that the loop took from the listing, whichever identifier the record was
  found under.
\<close>

theorem collection_keys_are_listed:
  assumes "main title net d w = (Inr (Some assets_data), w')"
  shows "(\<exists>listing. fst (get_asset_list net w) = JObj listing \<and>
            fst ` set assets_data \<subseteq> fst ` set (take 843 listing))
       \<and> (\<forall>asset_id tag rest acc w1 info w2.
            get_asset_info title net asset_id 3 w1 = (Some info, w2) \<longrightarrow>
            process_assets title net ((asset_id, tag) # rest) acc w1 =
              process_assets title net rest (AList.update asset_id info acc) (time_sleep 1 w2))"
proof -
  obtain hdri_assets w1 where l: "get_asset_list net w = (hdri_assets, w1)"
    by (cases "get_asset_list net w") auto
  from assms l obtain listing where h: "hdri_assets = JObj listing"
    and a: "assets_data = fst (process_assets title net (take 843 listing) [] w1)"
    by (cases hdri_assets)
       (auto simp: main_def split: if_splits prod.splits sum.splits)
  from process_assets_keys[of title net "take 843 listing" "[]" w1] a
  have "fst ` set assets_data \<subseteq> fst ` set (take 843 listing)" by simp
  with l h have first: "\<exists>listing. fst (get_asset_list net w) = JObj listing \<and>
            fst ` set assets_data \<subseteq> fst ` set (take 843 listing)" by simp
  have second: "\<forall>asset_id tag rest acc w1 info w2.
            get_asset_info title net asset_id 3 w1 = (Some info, w2) \<longrightarrow>
            process_assets title net ((asset_id, tag) # rest) acc w1 =
              process_assets title net rest (AList.update asset_id info acc) (time_sleep 1 w2)"
    using returned_record_truthy by (auto simp del: update.simps)
  from first second show ?thesis ..
qed

lemma default_name_abc_4k: "default_name ascii_title ''abc_4k'' = JStr ''Abc 4K''"
  by code_simp

lemma fallback_fetch:
  "get_asset_info ascii_title fallback_found_api ''abc'' 3 (w0\<lparr>trace := [Get assets_url]\<rparr>) =
     (Some fallback_record,
      w0\<lparr>trace := [Get assets_url, Get (info_url ''abc''), Get (info_url ''abc_4k''),
                    Get (files_url ''abc_4k'')]\<rparr>)"
  by (simp add: get_asset_info_def numeral_3_eq_3 try_fetch_def fetch_data_def fetch_info_def
      requests_get_def fallback_found_api_def info_url_def files_url_def assets_url_def API_URL_def
      raise_for_status_def files_data_of_def build_asset_info_def compute_max_res_def
      example_files_data_def area_gt_def area_def
      copy_authors_def format_asset_info_def dict_get_def default_authors_def
      max_resolution_field_def py_eq_int_def default_max_resolution_def
      default_thumbnail_url_def default_name_abc_4k
      fallback_record_def w0_def Let_def)

lemma fallback_listing:
  "get_asset_list fallback_found_api w0 =
     (JObj [(''abc'', JStr ''hdri'')], w0\<lparr>trace := [Get assets_url]\<rparr>)"
  by (simp add: get_asset_list_def list_assets_body_def requests_get_def raise_for_status_def
      fallback_found_api_def info_url_def files_url_def assets_url_def API_URL_def dict_get_def
      py_eq_int_def w0_def)

lemma fallback_main:
  "fst (main ascii_title fallback_found_api d0 w0) = Inr (Some [(''abc'', fallback_record)])"
  using fallback_fetch fallback_listing
  by (simp add: main_def fallback_record_def split: prod.splits)

theorem collection_keys_witness:
  "main ascii_title fallback_found_api d0 w0 =
     (Inr (Some [(''abc'', fallback_record)]), snd (main ascii_title fallback_found_api d0 w0)) \<and>
   get_asset_list fallback_found_api w0 =
     (JObj [(''abc'', JStr ''hdri'')], w0\<lparr>trace := [Get assets_url]\<rparr>) \<and>
   (\<exists>listing. fst (get_asset_list fallback_found_api w0) = JObj listing \<and>
      fst ` set [(''abc'', fallback_record)] \<subseteq> fst ` set (take 843 listing))"
proof -
  have m: "main ascii_title fallback_found_api d0 w0 =
     (Inr (Some [(''abc'', fallback_record)]), snd (main ascii_title fallback_found_api d0 w0))"
    using fallback_main by (simp add: prod_eq_iff)
  from collection_keys_are_listed[OF m] m fallback_listing show ?thesis by blast
qed

section \<open>The downloader\<close>

lemma download_file_exists:
  assumes "os_path_exists w (os_path_join save_dir (last_segment url))"
  shows "download_file net d url save_dir w = w"
  using assms by (simp add: download_file_def Let_def)

lemma download_file_written:
  assumes "\<not> os_path_exists w (os_path_join save_dir (last_segment url))"
    and "net (trace w) url = Inr r" and "dl_status r = 200"
    and "\<not> open_fails d (os_path_join save_dir (last_segment url))"
  shows "download_file net d url save_dir w =
           w\<lparr>trace := trace w @ [Get url],
             files := (files w)(os_path_join save_dir (last_segment url) \<mapsto>
               (if write_fails d (os_path_join save_dir (last_segment url))
                then take (kept_on_error d (os_path_join save_dir (last_segment url)))
                       (concat (received r))
                else concat (received r)))\<rparr>"
  using assms
  by (simp add: download_file_def Let_def download_body_def stream_get_def write_file_def
      os_path_exists_def)

lemma download_file_not_200:
  assumes "\<not> os_path_exists w (os_path_join save_dir (last_segment url))"
    and "net (trace w) url = Inr r" and "dl_status r \<noteq> 200"
  shows "download_file net d url save_dir w = w\<lparr>trace := trace w @ [Get url]\<rparr>"
  using assms
  by (simp add: download_file_def Let_def download_body_def stream_get_def)

text \<open>
  Claim C8.  When something exists at the path made of the destination directory and
  the last segment of the URL, \<^verbatim>\<open>download_file\<close> makes no request and changes no file:
  the world is the same.  This is so after a first call whose request was answered with
  200 and whose file could be opened: a second call, whatever the server and the disk
  would do, changes nothing.
\<close>

theorem download_is_idempotent:
  "(os_path_exists w (os_path_join save_dir (last_segment url)) \<longrightarrow>
      download_file net d url save_dir w = w)
 \<and> (\<forall>r. net (trace w) url = Inr r \<and> dl_status r = 200 \<and>
          \<not> open_fails d (os_path_join save_dir (last_segment url)) \<longrightarrow>
          os_path_exists (download_file net d url save_dir w)
            (os_path_join save_dir (last_segment url)) \<and>
          (\<forall>net' d'. download_file net' d' url save_dir (download_file net d url save_dir w) =
             download_file net d url save_dir w))"
proof -
  let ?path = "os_path_join save_dir (last_segment url)"
  let ?w1 = "download_file net d url save_dir w"
  have a: "os_path_exists w ?path \<longrightarrow> ?w1 = w"
    by (simp add: download_file_exists)
  {
    fix r
    assume n: "net (trace w) url = Inr r" and s: "dl_status r = 200"
      and o: "\<not> open_fails d ?path"
    have e: "os_path_exists ?w1 ?path"
    proof (cases "os_path_exists w ?path")
      case True
      then show ?thesis by (simp add: download_file_exists)
    next
      case False
      from download_file_written[where net = net and w = w and url = url and save_dir = save_dir and d = d and r = r, OF False n s o] show ?thesis
        by (simp add: os_path_exists_def)
    qed
    then have "\<forall>net' d'. download_file net' d' url save_dir ?w1 = ?w1"
      by (simp add: download_file_exists)
    with e have "os_path_exists ?w1 ?path \<and>
          (\<forall>net' d'. download_file net' d' url save_dir ?w1 = ?w1)" ..
  }
  with a show ?thesis by blast
qed

lemma good_download:
  "download_file good_server d0 example_url ''hdri_4k'' w0 =
     w0\<lparr>trace := [Get example_url], files := Map.empty(''hdri_4k/abc_4k.hdr'' \<mapsto> ''abcdef'')\<rparr>"
  by (simp add: download_file_def Let_def download_body_def stream_get_def write_file_def
      os_path_exists_def os_path_join_def last_segment_def example_url_def good_server_def
      received_def stream_breaks_def d0_def w0_def)

theorem download_is_idempotent_witness:
  "download_file good_server d0 example_url ''hdri_4k'' w0 =
     w0\<lparr>trace := [Get example_url], files := Map.empty(''hdri_4k/abc_4k.hdr'' \<mapsto> ''abcdef'')\<rparr> \<and>
   download_file broken_server d0 example_url ''hdri_4k''
       (download_file good_server d0 example_url ''hdri_4k'' w0) =
     download_file good_server d0 example_url ''hdri_4k'' w0"
proof -
  have n: "good_server (trace w0) example_url =
      Inr \<lparr>dl_status = 200, dl_chunks = [''ab'', ''cd'', ''ef''], dl_breaks_after = None\<rparr>"
    by (simp add: good_server_def)
  have o: "\<not> open_fails d0 (os_path_join ''hdri_4k'' (last_segment example_url))"
    by (simp add: d0_def)
  from download_is_idempotent[where net = good_server and d = d0 and url = example_url
      and save_dir = "''hdri_4k''" and w = w0] n o
  have "download_file broken_server d0 example_url ''hdri_4k''
       (download_file good_server d0 example_url ''hdri_4k'' w0) =
     download_file good_server d0 example_url ''hdri_4k'' w0"
    by simp
  with good_download show ?thesis by simp
qed

lemma partial_download_lemma:
  assumes "\<not> os_path_exists w (os_path_join save_dir (last_segment url))"
    and "net (trace w) url = Inr r"
    and "\<not> open_fails d (os_path_join save_dir (last_segment url))"
  shows "(dl_status r = 200 \<longrightarrow>
            os_path_exists (download_file net d url save_dir w)
              (os_path_join save_dir (last_segment url)) \<and>
            (\<not> write_fails d (os_path_join save_dir (last_segment url)) \<longrightarrow>
               files (download_file net d url save_dir w) (os_path_join save_dir (last_segment url))
                 = Some (concat (received r))) \<and>
            (\<forall>net' d'. download_file net' d' url save_dir (download_file net d url save_dir w) =
               download_file net d url save_dir w))
       \<and> (\<forall>k. dl_status r = 200 \<and> dl_breaks_after r = Some k \<and> k < length (dl_chunks r) \<and>
               \<not> write_fails d (os_path_join save_dir (last_segment url)) \<longrightarrow>
            download_body net d url (os_path_join save_dir (last_segment url)) w =
              (Inl RequestException, download_file net d url save_dir w) \<and>
            files (download_file net d url save_dir w) (os_path_join save_dir (last_segment url))
              = Some (concat (take k (dl_chunks r))))
       \<and> (files (download_file net d url save_dir w) = files w \<longleftrightarrow> dl_status r \<noteq> 200)"
proof -
  let ?path = "os_path_join save_dir (last_segment url)"
  let ?w1 = "download_file net d url save_dir w"
  have none: "files w ?path = None"
    using assms(1) by (simp add: os_path_exists_def)
  have p1: "dl_status r = 200 \<longrightarrow>
            os_path_exists ?w1 ?path \<and>
            (\<not> write_fails d ?path \<longrightarrow> files ?w1 ?path = Some (concat (received r))) \<and>
            (\<forall>net' d'. download_file net' d' url save_dir ?w1 = ?w1)"
  proof
    assume s: "dl_status r = 200"
    from download_file_written[where net = net and w = w and url = url and save_dir = save_dir and d = d and r = r, OF assms(1,2) s assms(3)]
    have e: "os_path_exists ?w1 ?path"
      and c: "\<not> write_fails d ?path \<longrightarrow> files ?w1 ?path = Some (concat (received r))"
      by (simp_all add: os_path_exists_def)
    from e have "\<forall>net' d'. download_file net' d' url save_dir ?w1 = ?w1"
      by (simp add: download_file_exists)
    with e c show "os_path_exists ?w1 ?path \<and>
            (\<not> write_fails d ?path \<longrightarrow> files ?w1 ?path = Some (concat (received r))) \<and>
            (\<forall>net' d'. download_file net' d' url save_dir ?w1 = ?w1)" by blast
  qed
  have p2: "\<forall>k. dl_status r = 200 \<and> dl_breaks_after r = Some k \<and> k < length (dl_chunks r) \<and>
               \<not> write_fails d ?path \<longrightarrow>
            download_body net d url ?path w = (Inl RequestException, ?w1) \<and>
            files ?w1 ?path = Some (concat (take k (dl_chunks r)))"
    using assms
    by (auto simp: download_file_def Let_def download_body_def stream_get_def write_file_def
        os_path_exists_def received_def stream_breaks_def)
  have p3: "files ?w1 = files w \<longleftrightarrow> dl_status r \<noteq> 200"
  proof (cases "dl_status r = 200")
    case True
    from download_file_written[where net = net and w = w and url = url and save_dir = save_dir and d = d and r = r, OF assms(1,2) True assms(3)] have "files ?w1 ?path \<noteq> None"
      by simp
    with none have "files ?w1 \<noteq> files w" by metis
    with True show ?thesis by simp
  next
    case False
    from download_file_not_200[where net = net and w = w and url = url and save_dir = save_dir and d = d and r = r, OF assms(1,2) False] False show ?thesis by simp
  qed
  from p1 p2 p3 show ?thesis by blast
qed

section \<open>What a download leaves on disk\<close>

lemma download_file_raises:
  assumes "\<not> os_path_exists w (os_path_join save_dir (last_segment url))"
    and "net (trace w) url = Inl e"
  shows "download_file net d url save_dir w = w\<lparr>trace := trace w @ [Get url]\<rparr>"
  using assms
  by (simp add: download_file_def Let_def download_body_def stream_get_def)

lemma download_file_cannot_open:
  assumes "\<not> os_path_exists w (os_path_join save_dir (last_segment url))"
    and "net (trace w) url = Inr r"
    and "open_fails d (os_path_join save_dir (last_segment url))"
  shows "download_file net d url save_dir w = w\<lparr>trace := trace w @ [Get url]\<rparr>"
  using assms
  by (simp add: download_file_def Let_def download_body_def stream_get_def write_file_def)

lemma files_unchanged_iff:
  "files (download_file net d url save_dir w) = files w \<longleftrightarrow>
     os_path_exists w (os_path_join save_dir (last_segment url))
     \<or> (\<exists>e. net (trace w) url = Inl e)
     \<or> (\<exists>r. net (trace w) url = Inr r \<and>
            (dl_status r \<noteq> 200 \<or> open_fails d (os_path_join save_dir (last_segment url))))"
proof (cases "os_path_exists w (os_path_join save_dir (last_segment url))")
  case True
  then show ?thesis by (simp add: download_file_exists)
next
  case False
  show ?thesis
  proof (cases "net (trace w) url")
    case (Inl e)
    with download_file_raises[where net = net and w = w and url = url and save_dir = save_dir
        and d = d and e = e, OF False] show ?thesis by simp
  next
    case (Inr r)
    show ?thesis
    proof (cases "open_fails d (os_path_join save_dir (last_segment url))")
      case True
      with download_file_cannot_open[where net = net and w = w and url = url
          and save_dir = save_dir and d = d and r = r, OF False Inr] Inr
      show ?thesis by simp
    next
      case o: False
      from partial_download_lemma[where net = net and w = w and url = url
          and save_dir = save_dir and d = d and r = r, OF False Inr o]
      have "files (download_file net d url save_dir w) = files w \<longleftrightarrow> dl_status r \<noteq> 200"
        by blast
      with False Inr o show ?thesis by simp
    qed
  qed
qed

text \<open>
  Claim C9, as amended.  Take a call whose path does not exist yet, whose request is
  answered with 200 and whose file can be opened.  The chunks received before the
  transfer ends or breaks are left in the file.  When the transfer breaks, the exception
  is raised inside the call and swallowed, the file holds the chunks before the break,
  and every later call for the same URL and directory finds the file and changes nothing.
  The files are as before a call exactly when the path exists already, the request
  raises, the status is not 200, or the file cannot be opened.
\<close>

theorem partial_download_is_kept:
  "(\<forall>r. \<not> os_path_exists w (os_path_join save_dir (last_segment url)) \<and>
        net (trace w) url = Inr r \<and> dl_status r = 200 \<and>
        \<not> open_fails d (os_path_join save_dir (last_segment url)) \<longrightarrow>
        os_path_exists (download_file net d url save_dir w)
          (os_path_join save_dir (last_segment url)) \<and>
        (\<not> write_fails d (os_path_join save_dir (last_segment url)) \<longrightarrow>
           files (download_file net d url save_dir w) (os_path_join save_dir (last_segment url))
             = Some (concat (received r))) \<and>
        (\<forall>net' d'. download_file net' d' url save_dir (download_file net d url save_dir w) =
           download_file net d url save_dir w) \<and>
        (\<forall>k. dl_breaks_after r = Some k \<and> k < length (dl_chunks r) \<and>
             \<not> write_fails d (os_path_join save_dir (last_segment url)) \<longrightarrow>
           download_body net d url (os_path_join save_dir (last_segment url)) w =
             (Inl RequestException, download_file net d url save_dir w) \<and>
           files (download_file net d url save_dir w) (os_path_join save_dir (last_segment url))
             = Some (concat (take k (dl_chunks r)))))
 \<and> (files (download_file net d url save_dir w) = files w \<longleftrightarrow>
       os_path_exists w (os_path_join save_dir (last_segment url))
       \<or> (\<exists>e. net (trace w) url = Inl e)
       \<or> (\<exists>r. net (trace w) url = Inr r \<and>
              (dl_status r \<noteq> 200 \<or> open_fails d (os_path_join save_dir (last_segment url)))))"
proof -
  {
    fix r
    assume e: "\<not> os_path_exists w (os_path_join save_dir (last_segment url))"
      and n: "net (trace w) url = Inr r" and s: "dl_status r = 200"
      and o: "\<not> open_fails d (os_path_join save_dir (last_segment url))"
    from partial_download_lemma[where net = net and w = w and url = url
          and save_dir = save_dir and d = d and r = r, OF e n o] s
    have "os_path_exists (download_file net d url save_dir w)
          (os_path_join save_dir (last_segment url)) \<and>
        (\<not> write_fails d (os_path_join save_dir (last_segment url)) \<longrightarrow>
           files (download_file net d url save_dir w) (os_path_join save_dir (last_segment url))
             = Some (concat (received r))) \<and>
        (\<forall>net' d'. download_file net' d' url save_dir (download_file net d url save_dir w) =
           download_file net d url save_dir w) \<and>
        (\<forall>k. dl_breaks_after r = Some k \<and> k < length (dl_chunks r) \<and>
             \<not> write_fails d (os_path_join save_dir (last_segment url)) \<longrightarrow>
           download_body net d url (os_path_join save_dir (last_segment url)) w =
             (Inl RequestException, download_file net d url save_dir w) \<and>
           files (download_file net d url save_dir w) (os_path_join save_dir (last_segment url))
             = Some (concat (take k (dl_chunks r))))"
      by blast
  }
  with files_unchanged_iff[of net d url save_dir w] show ?thesis by blast
qed

theorem partial_download_witness:
  "download_file broken_server d0 example_url ''hdri_4k'' w0 =
     w0\<lparr>trace := [Get example_url], files := Map.empty(''hdri_4k/abc_4k.hdr'' \<mapsto> ''ab'')\<rparr> \<and>
   download_file good_server d0 example_url ''hdri_4k''
       (download_file broken_server d0 example_url ''hdri_4k'' w0) =
     download_file broken_server d0 example_url ''hdri_4k'' w0"
proof -
  have b: "download_file broken_server d0 example_url ''hdri_4k'' w0 =
     w0\<lparr>trace := [Get example_url], files := Map.empty(''hdri_4k/abc_4k.hdr'' \<mapsto> ''ab'')\<rparr>"
    by (simp add: download_file_def Let_def download_body_def stream_get_def write_file_def
      os_path_exists_def os_path_join_def last_segment_def example_url_def broken_server_def
      received_def stream_breaks_def d0_def w0_def)
  have e: "\<not> os_path_exists w0 (os_path_join ''hdri_4k'' (last_segment example_url))"
    by (simp add: os_path_exists_def w0_def)
  have n: "broken_server (trace w0) example_url =
      Inr \<lparr>dl_status = 200, dl_chunks = [''ab'', ''cd'', ''ef''], dl_breaks_after = Some 1\<rparr>"
    by (simp add: broken_server_def)
  have o: "\<not> open_fails d0 (os_path_join ''hdri_4k'' (last_segment example_url))"
    by (simp add: d0_def)
  from partial_download_is_kept[where net = broken_server and w = w0 and url = example_url
      and save_dir = "''hdri_4k''" and d = d0] e n o
  have "download_file good_server d0 example_url ''hdri_4k''
       (download_file broken_server d0 example_url ''hdri_4k'' w0) =
     download_file broken_server d0 example_url ''hdri_4k'' w0"
    by simp
  with b show ?thesis by simp
qed

theorem unchanged_with_200_counterexample:
  "good_server (trace w0) example_url =
     Inr \<lparr>dl_status = 200, dl_chunks = [''ab'', ''cd'', ''ef''], dl_breaks_after = None\<rparr> \<and>
   files (download_file good_server locked_disk example_url ''hdri_4k'' w0) = files w0 \<and>
   files (download_file unreachable_server d0 example_url ''hdri_4k'' w0) = files w0"
  by (simp add: download_file_def Let_def download_body_def stream_get_def write_file_def
      os_path_exists_def good_server_def unreachable_server_def locked_disk_def w0_def)

section \<open>Reading back what \<^verbatim>\<open>json.dump\<close> wrote\<close>

subsection \<open>Numbers\<close>

lemma of_char_digit: "n < 10 \<Longrightarrow> (of_char (char_of (48 + n)) :: nat) = 48 + n"
  by simp

lemma show_nat_digits: "list_all is_digit (show_nat n)"
proof (induction n rule: show_nat.induct)
  case (1 n)
  show ?case
  proof (cases "n < 10")
    case True
    then show ?thesis by (simp add: show_nat.simps[of n] is_digit_def)
  next
    case False
    have "n mod 10 < 10" by simp
    then have "is_digit (char_of (48 + n mod 10))"
      unfolding is_digit_def by (simp only: of_char_digit) simp
    with False 1 show ?thesis by (subst show_nat.simps) simp
  qed
qed

lemma show_nat_not_empty: "show_nat n \<noteq> []"
  by (subst show_nat.simps) simp

lemma parse_digits_append:
  "list_all is_digit ds \<Longrightarrow>
   parse_digits (ds @ rest) acc =
     parse_digits rest (foldl (\<lambda>a c. a * 10 + ((of_char c :: nat) - 48)) acc ds)"
  by (induction ds arbitrary: acc) simp_all

lemma foldl_show_nat:
  "foldl (\<lambda>a c. a * 10 + ((of_char c :: nat) - 48)) acc (show_nat n)
     = acc * 10 ^ length (show_nat n) + n"
proof (induction n arbitrary: acc rule: show_nat.induct)
  case (1 n)
  show ?case
  proof (cases "n < 10")
    case True
    then show ?thesis by (simp add: show_nat.simps[of n])
  next
    case False
    have m: "n mod 10 < 10" by simp
    have e: "show_nat n = show_nat (n div 10) @ [char_of (48 + n mod 10)]"
      using False by (subst show_nat.simps) simp
    have "foldl (\<lambda>a c. a * 10 + ((of_char c :: nat) - 48)) acc (show_nat n)
        = (acc * 10 ^ length (show_nat (n div 10)) + n div 10) * 10 + n mod 10"
      unfolding e using 1[OF False] by (simp only: foldl_append foldl.simps of_char_digit[OF m])
    also have "\<dots> = acc * 10 ^ length (show_nat n) + n"
      unfolding e by (simp add: algebra_simps)
    finally show ?thesis .
  qed
qed

lemma parse_digits_stop:
  "(case rest of [] \<Rightarrow> True | c # t \<Rightarrow> \<not> is_digit c) \<Longrightarrow> parse_digits rest acc = (acc, rest)"
  by (cases rest) simp_all

lemma hd_show_nat_zero: "hd (show_nat n) = CHR ''0'' \<Longrightarrow> n = 0"
proof (induction n rule: show_nat.induct)
  case (1 n)
  show ?case
  proof (cases "n < 10")
    case True
    with 1(2) have "char_of (48 + n) = (CHR ''0'' :: char)" by (simp add: show_nat.simps[of n])
    then have "(of_char (char_of (48 + n) :: char) :: nat) = of_char CHR ''0''" by simp
    with True show ?thesis by (simp only: of_char_digit) simp
  next
    case False
    have e: "show_nat n = show_nat (n div 10) @ [char_of (48 + n mod 10)]"
      using False by (subst show_nat.simps) simp
    with 1(2) show_nat_not_empty[of "n div 10"] have "hd (show_nat (n div 10)) = CHR ''0''"
      by simp
    with 1(1)[OF False] have "n div 10 = 0" by simp
    with False show ?thesis by simp
  qed
qed

lemma parse_nat_show_nat:
  assumes "case rest of [] \<Rightarrow> True | c # t \<Rightarrow> \<not> is_digit c"
  shows "parse_nat (show_nat n @ rest) = Some (n, rest)"
proof -
  obtain c t where ct: "show_nat n = c # t"
    using show_nat_not_empty[of n] by (cases "show_nat n") auto
  have dc: "is_digit c" using show_nat_digits[of n] ct by simp
  show ?thesis
  proof (cases "c = CHR ''0''")
    case True
    with ct hd_show_nat_zero[of n] have n0: "n = 0" by simp
    then have "length (show_nat n) = 1" by (simp add: show_nat.simps[of 0])
    with ct have "t = []" by simp
    with ct True n0 show ?thesis by (simp only: parse_nat_def) simp
  next
    case False
    have "parse_digits (show_nat n @ rest) 0 = (n, rest)"
      using parse_digits_append[OF show_nat_digits, of n rest 0] foldl_show_nat[of 0 n]
        parse_digits_stop[OF assms] by simp
    with False dc ct show ?thesis by (simp add: parse_nat_def)
  qed
qed

lemma delim_not_digit: "delim rest \<Longrightarrow> (case rest of [] \<Rightarrow> True | c # t \<Rightarrow> \<not> is_digit c)"
  by (auto simp: delim_def is_digit_def split: list.splits)

lemma parse_number_show_int:
  assumes "delim rest"
  shows "parse_number (show_int i @ rest) = Some (JInt i, rest)"
proof -
  note p = parse_nat_show_nat[OF delim_not_digit[OF assms]]
  obtain c t where ct: "show_nat (nat i) = c # t"
    using show_nat_not_empty[of "nat i"] by (cases "show_nat (nat i)") auto
  have "is_digit c" using show_nat_digits[of "nat i"] ct by simp
  then have cm: "c \<noteq> CHR ''-''" by (auto simp: is_digit_def)
  have tail: "(case rest of [] \<Rightarrow> Some (JInt i, rest)
           | c # t \<Rightarrow> if c = CHR ''.'' \<or> c = CHR ''e'' \<or> c = CHR ''E'' then None
               else Some (JInt i, rest)) = Some (JInt i, rest)"
    using assms by (auto simp: delim_def split: list.splits)
  show ?thesis
  proof (cases "i < 0")
    case True
    then show ?thesis
      using p[of "nat (- i)"] tail by (simp add: parse_number_def show_int_def)
  next
    case False
    have "parse_nat (c # t @ rest) = Some (nat i, rest)"
      using p[of "nat i"] ct by simp
    with False cm ct tail show ?thesis
      by (simp add: parse_number_def show_int_def)
  qed
qed

subsection \<open>Strings\<close>

lemma hex_val_hex_digit: "k < 16 \<Longrightarrow> hex_val (hex_digit k) = Some k"
  by (auto simp: hex_val_def hex_digit_def Let_def)

lemma hex_val_zero: "hex_val CHR ''0'' = Some 0"
  by (simp add: hex_val_def)

lemma hex4_small:
  "n < 256 \<Longrightarrow> hex4 CHR ''0'' CHR ''0'' (hex_digit (n div 16)) (hex_digit (n mod 16)) = Some n"
  by (simp add: hex4_def hex_val_zero hex_val_hex_digit)

lemma parse_units_escape:
  "parse_units (escape_char c @ t) =
     (case parse_units t of None \<Rightarrow> None | Some (us, r) \<Rightarrow> Some (unit_of c # us, r))"
proof -
  consider "c = dquote" | "c = backslash" | "c = CHR 0x0A" | "c = CHR 0x0D" | "c = CHR 0x09"
    | "c = CHR 0x08" | "c = CHR 0x0C"
    | "c \<noteq> dquote" "c \<noteq> backslash" "c \<noteq> CHR 0x0A" "c \<noteq> CHR 0x0D" "c \<noteq> CHR 0x09"
      "c \<noteq> CHR 0x08" "c \<noteq> CHR 0x0C" "(of_char c :: nat) < 32"
    | "c \<noteq> dquote" "c \<noteq> backslash" "c \<noteq> CHR 0x0A" "c \<noteq> CHR 0x0D" "c \<noteq> CHR 0x09"
      "c \<noteq> CHR 0x08" "c \<noteq> CHR 0x0C" "\<not> (of_char c :: nat) < 32"
    by blast
  then show ?thesis
  proof cases
    case 1
    then show ?thesis
      by (simp add: escape_char_def unit_of_def unescape_def dquote_def backslash_def
          split: option.splits)
  next
    case 2
    then show ?thesis
      by (simp add: escape_char_def unit_of_def unescape_def dquote_def backslash_def
          split: option.splits)
  next
    case 3
    then show ?thesis
      by (simp add: escape_char_def unit_of_def unescape_def dquote_def backslash_def
          split: option.splits)
  next
    case 4
    then show ?thesis
      by (simp add: escape_char_def unit_of_def unescape_def dquote_def backslash_def
          split: option.splits)
  next
    case 5
    then show ?thesis
      by (simp add: escape_char_def unit_of_def unescape_def dquote_def backslash_def
          split: option.splits)
  next
    case 6
    then show ?thesis
      by (simp add: escape_char_def unit_of_def unescape_def dquote_def backslash_def
          split: option.splits)
  next
    case 7
    then show ?thesis
      by (simp add: escape_char_def unit_of_def unescape_def dquote_def backslash_def
          split: option.splits)
  next
    case 8
    then have h: "hex4 CHR ''0'' CHR ''0'' (hex_digit ((of_char c :: nat) div 16))
                    (hex_digit ((of_char c :: nat) mod 16)) = Some (of_char c)"
      by (intro hex4_small) simp
    from 8 have e: "escape_char c = [backslash, CHR ''u'', CHR ''0'', CHR ''0'',
         hex_digit ((of_char c :: nat) div 16), hex_digit ((of_char c :: nat) mod 16)]"
      by (simp add: escape_char_def)
    from 8 have u: "unit_of c = Esc (of_char c)" by (simp add: unit_of_def)
    show ?thesis
      unfolding e u using h
      by (simp add: dquote_def backslash_def split: option.splits)
  next
    case 9
    then show ?thesis
      by (simp add: escape_char_def unit_of_def split: option.splits)
  qed
qed

lemma parse_units_encoded:
  "parse_units (concat (map escape_char s) @ dquote # rest) = Some (map unit_of s, rest)"
proof (induction s)
  case Nil
  then show ?case by simp
next
  case (Cons c s)
  have "parse_units (concat (map escape_char (c # s)) @ dquote # rest)
      = parse_units (escape_char c @ (concat (map escape_char s) @ dquote # rest))"
    by simp
  also have "\<dots> = Some (unit_of c # map unit_of s, rest)"
    unfolding parse_units_escape Cons.IH by simp
  finally show ?case by simp
qed

lemma decode_units_small:
  "n < 128 \<Longrightarrow> decode_units (Esc n # us) = char_of n # decode_units us"
proof (cases us)
  case Nil
  assume "n < 128"
  with Nil show ?thesis by (simp add: utf8_def)
next
  case (Cons u us')
  assume "n < 128"
  with Cons show ?thesis by (cases u) (simp_all add: utf8_def is_high_def)
qed

lemma decode_units_encoded: "decode_units (map unit_of s) = s"
proof (induction s)
  case Nil
  then show ?case by simp
next
  case (Cons c s)
  show ?case
  proof (cases "unit_of c")
    case (Byte x)
    then have "x = c" by (auto simp: unit_of_def split: if_splits)
    with Byte Cons show ?thesis by simp
  next
    case (Esc n)
    then have n: "n = of_char c" "n < 128" by (auto simp: unit_of_def split: if_splits)
    with Esc Cons show ?thesis by (simp add: decode_units_small)
  qed
qed

lemma parse_string_encoded:
  "parse_string (concat (map escape_char s) @ dquote # rest) = Some (s, rest)"
  by (simp add: parse_string_def parse_units_encoded decode_units_encoded)

subsection \<open>White space and first characters\<close>

lemma skip_ws_spaces: "dropWhile is_ws (replicate k CHR '' '' @ s) = dropWhile is_ws s"
  by (induction k) (simp_all add: is_ws_def)

lemma skip_ws_newline_indent: "skip_ws (newline_indent l @ s) = skip_ws s"
  by (simp add: skip_ws_def newline_indent_def skip_ws_spaces) (simp add: is_ws_def)

lemma skip_ws_start: "\<not> is_ws c \<Longrightarrow> skip_ws (c # s) = c # s"
  by (simp add: skip_ws_def)

lemma show_int_start:
  "\<exists>c t. show_int i = c # t \<and> (is_digit c \<or> c = CHR ''-'')"
proof -
  have "\<And>n. \<exists>c t. show_nat n = c # t \<and> is_digit c"
  proof -
    fix n
    obtain c t where "show_nat n = c # t"
      using show_nat_not_empty[of n] by (cases "show_nat n") auto
    moreover with show_nat_digits[of n] have "is_digit c" by simp
    ultimately show "\<exists>c t. show_nat n = c # t \<and> is_digit c" by blast
  qed
  then obtain c t where ct: "show_nat (nat (- i)) = c # t \<or> show_nat (nat i) = c # t" by blast
  show ?thesis
  proof (cases "i < 0")
    case True
    then show ?thesis by (simp add: show_int_def)
  next
    case False
    from \<open>\<And>n. \<exists>c t. show_nat n = c # t \<and> is_digit c\<close>[of "nat i"] False
    show ?thesis by (auto simp: show_int_def)
  qed
qed

lemma dumps_at_start: "\<exists>c t. dumps_at level v = c # t \<and> value_start c"
proof (cases v)
  case (JInt i)
  from show_int_start[of i] obtain c t where "show_int i = c # t" "is_digit c \<or> c = CHR ''-''"
    by blast
  with JInt show ?thesis by (auto simp: value_start_def is_ws_def is_digit_def)
next
  case (JStr s)
  then show ?thesis by (simp add: encode_str_def value_start_def is_ws_def dquote_def)
qed (auto simp: value_start_def is_ws_def)

lemma dumps_items_start:
  "xs \<noteq> [] \<Longrightarrow> \<exists>c t. dumps_items level xs = c # t \<and> value_start c"
proof (cases xs)
  case Nil
  assume "xs \<noteq> []"
  with Nil show ?thesis by simp
next
  case (Cons x ys)
  from dumps_at_start[of level x] obtain c t where "dumps_at level x = c # t" "value_start c"
    by blast
  with Cons show ?thesis by (cases ys) auto
qed

lemma dumps_members_start:
  "kvs \<noteq> [] \<Longrightarrow> \<exists>t. dumps_members level kvs = dquote # t"
proof (cases kvs)
  case Nil
  assume "kvs \<noteq> []"
  with Nil show ?thesis by simp
next
  case (Cons p ys)
  obtain k v where "p = (k, v)" by (cases p)
  with Cons show ?thesis by (cases ys) (auto simp: encode_str_def)
qed

subsection \<open>The values one by one\<close>

lemma parse_value_null: "parse_value (Suc n) (''null'' @ rest) = Some (JNull, rest)"
  by (simp add: dquote_def)

lemma parse_value_true: "parse_value (Suc n) (''true'' @ rest) = Some (JBool True, rest)"
  by (simp add: dquote_def)

lemma parse_value_false: "parse_value (Suc n) (''false'' @ rest) = Some (JBool False, rest)"
  by (simp add: dquote_def)

lemma parse_value_int:
  assumes "delim rest"
  shows "parse_value (Suc n) (show_int i @ rest) = Some (JInt i, rest)"
proof -
  from show_int_start[of i] obtain c t where s: "show_int i = c # t"
    and c: "is_digit c \<or> c = CHR ''-''" by blast
  from c have ne: "c \<noteq> dquote" "c \<noteq> CHR ''{''" "c \<noteq> CHR ''[''" "c \<noteq> CHR ''n''"
    "c \<noteq> CHR ''t''" "c \<noteq> CHR ''f''"
    by (auto simp: is_digit_def dquote_def)
  have "parse_value (Suc n) (c # t @ rest) = parse_number (c # t @ rest)"
    using ne by simp
  with parse_number_show_int[OF assms, of i] s show ?thesis by simp
qed

lemma parse_value_str:
  "parse_value (Suc n) (encode_str s @ rest) = Some (JStr s, rest)"
  by (simp add: encode_str_def parse_string_encoded)

lemma parse_value_empty_list: "parse_value (Suc n) (''[]'' @ rest) = Some (JList [], rest)"
  by (simp add: dquote_def skip_ws_def is_ws_def)

lemma parse_value_empty_dict: "parse_value (Suc n) (''{}'' @ rest) = Some (JObj [], rest)"
  by (simp add: dquote_def skip_ws_def is_ws_def)

lemma parse_value_list:
  assumes "parse_items n (c # t) = Some (xs, rest)" and "value_start c"
  shows "parse_value (Suc n) (''['' @ newline_indent l @ c # t) = Some (JList xs, rest)"
proof -
  have "skip_ws (newline_indent l @ c # t) = c # t"
    using assms(2) by (simp add: skip_ws_newline_indent skip_ws_start value_start_def)
  with assms show ?thesis by (simp add: dquote_def value_start_def)
qed

lemma parse_value_dict:
  assumes "parse_members n (dquote # t) = Some (pairs, rest)"
  shows "parse_value (Suc n) (''{'' @ newline_indent l @ dquote # t)
           = Some (JObj (dict_of_pairs pairs), rest)"
proof -
  have "skip_ws (newline_indent l @ dquote # t) = dquote # t"
    by (simp add: skip_ws_newline_indent skip_ws_start is_ws_def dquote_def)
  with assms show ?thesis by (simp add: dquote_def)
qed

subsection \<open>Distinct keys\<close>

lemma update_fresh: "k \<notin> fst ` set al \<Longrightarrow> AList.update k v al = al @ [(k, v)]"
  by (induction al) auto

lemma fold_update_distinct:
  "distinct (map fst (acc @ kvs)) \<Longrightarrow>
   fold (\<lambda>(k, v) acc. AList.update k v acc) kvs acc = acc @ kvs"
proof (induction kvs arbitrary: acc)
  case Nil
  then show ?case by simp
next
  case (Cons p kvs)
  obtain k v where p: "p = (k, v)" by (cases p)
  from Cons.prems have f: "k \<notin> fst ` set acc" by (auto simp: p)
  from Cons.prems have "distinct (map fst ((acc @ [(k, v)]) @ kvs))" by (simp add: p)
  from Cons.IH[OF this] f show ?case by (simp add: p update_fresh)
qed

lemma dict_of_pairs_distinct: "distinct (map fst kvs) \<Longrightarrow> dict_of_pairs kvs = kvs"
  using fold_update_distinct[of "[]" kvs] by (simp add: dict_of_pairs_def)

subsection \<open>Items and members\<close>

lemma delim_newline_indent: "delim (newline_indent l @ s)"
  by (simp add: delim_def newline_indent_def)

lemma delim_comma: "delim (CHR '','' # s)"
  by (simp add: delim_def)

lemma parse_items_last:
  assumes "parse_value m (s @ newline_indent l @ CHR '']'' # rest)
             = Some (x, newline_indent l @ CHR '']'' # rest)"
  shows "parse_items (Suc m) (s @ newline_indent l @ CHR '']'' # rest) = Some ([x], rest)"
proof -
  have "skip_ws (newline_indent l @ CHR '']'' # rest) = CHR '']'' # rest"
    by (simp add: skip_ws_newline_indent skip_ws_start is_ws_def)
  with assms show ?thesis by simp
qed

lemma parse_items_more:
  assumes "parse_value m (s @ CHR '','' # newline_indent l @ c # t)
             = Some (x, CHR '','' # newline_indent l @ c # t)"
    and "value_start c"
    and "parse_items m (c # t) = Some (xs, rest)"
  shows "parse_items (Suc m) (s @ CHR '','' # newline_indent l @ c # t) = Some (x # xs, rest)"
proof -
  have a: "skip_ws (CHR '','' # newline_indent l @ c # t) = CHR '','' # newline_indent l @ c # t"
    by (simp add: skip_ws_start is_ws_def)
  have b: "skip_ws (newline_indent l @ c # t) = c # t"
    using assms(2) by (simp add: skip_ws_newline_indent skip_ws_start value_start_def)
  from assms(1,3) a b show ?thesis by simp
qed

lemma parse_members_key:
  assumes "\<not> is_ws c"
  shows "parse_members (Suc m) (encode_str k @ '': '' @ c # t) =
        (case parse_value m (c # t) of
           None \<Rightarrow> None
         | Some (v, r2) \<Rightarrow>
             (case skip_ws r2 of
                [] \<Rightarrow> None
              | c2 # r3 \<Rightarrow>
                  if c2 = CHR ''}'' then Some ([(k, v)], r3)
                  else if c2 = CHR '','' then
                    (case parse_members m (skip_ws r3) of
                       None \<Rightarrow> None
                     | Some (pairs, r4) \<Rightarrow> Some ((k, v) # pairs, r4))
                  else None))"
proof -
  have a: "parse_string (concat (map escape_char k) @ dquote # CHR '':'' # CHR '' '' # c # t)
             = Some (k, CHR '':'' # CHR '' '' # c # t)"
    by (rule parse_string_encoded)
  have b: "skip_ws (CHR '':'' # CHR '' '' # c # t) = CHR '':'' # CHR '' '' # c # t"
    by (simp add: skip_ws_start is_ws_def)
  have c: "skip_ws (CHR '' '' # c # t) = c # t"
    using assms by (simp add: skip_ws_def is_ws_def)
  from a b c show ?thesis by (simp add: encode_str_def)
qed

lemma parse_members_last:
  assumes "parse_value m (c # t @ newline_indent l @ CHR ''}'' # rest)
             = Some (v, newline_indent l @ CHR ''}'' # rest)"
    and "value_start c"
  shows "parse_members (Suc m) (encode_str k @ '': '' @ c # t @ newline_indent l @ CHR ''}'' # rest)
           = Some ([(k, v)], rest)"
proof -
  have "skip_ws (newline_indent l @ CHR ''}'' # rest) = CHR ''}'' # rest"
    by (simp add: skip_ws_newline_indent skip_ws_start is_ws_def)
  moreover from assms(2) have "\<not> is_ws c" by (simp add: value_start_def)
  ultimately show ?thesis
    using assms(1) by (subst parse_members_key) simp_all
qed

lemma parse_members_more:
  assumes "parse_value m (c # t @ CHR '','' # newline_indent l @ dquote # u)
             = Some (v, CHR '','' # newline_indent l @ dquote # u)"
    and "value_start c"
    and "parse_members m (dquote # u) = Some (pairs, rest)"
  shows "parse_members (Suc m)
           (encode_str k @ '': '' @ c # t @ CHR '','' # newline_indent l @ dquote # u)
           = Some ((k, v) # pairs, rest)"
proof -
  have a: "skip_ws (CHR '','' # newline_indent l @ dquote # u)
             = CHR '','' # newline_indent l @ dquote # u"
    by (simp add: skip_ws_start is_ws_def)
  have b: "skip_ws (newline_indent l @ dquote # u) = dquote # u"
    by (simp add: skip_ws_newline_indent skip_ws_start is_ws_def dquote_def)
  from assms(2) have "\<not> is_ws c" by (simp add: value_start_def)
  with assms(1,3) a b show ?thesis
    by (subst parse_members_key) simp_all
qed

subsection \<open>The whole document\<close>

lemma length_newline_indent: "0 < length (newline_indent l)"
  by (simp add: newline_indent_def)

lemma roundtrip:
  "wf_json v \<longrightarrow>
     (\<forall>n rest. length (dumps_at level v) \<le> n \<and> delim rest \<longrightarrow>
        parse_value n (dumps_at level v @ rest) = Some (v, rest))"
  "xs \<noteq> [] \<longrightarrow> wf_items xs \<longrightarrow>
     (\<forall>n rest l. length (dumps_items level xs) < n \<longrightarrow>
        parse_items n (dumps_items level xs @ newline_indent l @ CHR '']'' # rest)
          = Some (xs, rest))"
  "kvs \<noteq> [] \<longrightarrow> wf_members kvs \<longrightarrow>
     (\<forall>n rest l. length (dumps_members level kvs) < n \<longrightarrow>
        parse_members n (dumps_members level kvs @ newline_indent l @ CHR ''}'' # rest)
          = Some (kvs, rest))"
proof (induction level v and level xs and level kvs
    rule: dumps_at_dumps_items_dumps_members.induct)
  case (1 level)
  show ?case
  proof (intro impI allI, elim conjE)
    fix n rest assume "length (dumps_at level JNull) \<le> n"
    then obtain m where "n = Suc m" by (cases n) auto
    then show "parse_value n (dumps_at level JNull @ rest) = Some (JNull, rest)"
      using parse_value_null[of m rest] by simp
  qed
next
  case (2 level b)
  show ?case
  proof (intro impI allI, elim conjE)
    fix n rest assume "length (dumps_at level (JBool b)) \<le> n"
    then obtain m where "n = Suc m" by (cases n) (auto split: if_splits)
    then show "parse_value n (dumps_at level (JBool b) @ rest) = Some (JBool b, rest)"
      using parse_value_true[of m rest] parse_value_false[of m rest]
      by (cases b) (simp_all only: dumps_at.simps if_True if_False)
  qed
next
  case (3 level i)
  show ?case
  proof (intro impI allI, elim conjE)
    fix n rest assume l: "length (dumps_at level (JInt i)) \<le> n" and d: "delim rest"
    from show_int_start[of i] have "0 < length (show_int i)" by auto
    with l obtain m where "n = Suc m" by (cases n) auto
    then show "parse_value n (dumps_at level (JInt i) @ rest) = Some (JInt i, rest)"
      using parse_value_int[OF d, of m i] by simp
  qed
next
  case (4 level s)
  show ?case
  proof (intro impI allI, elim conjE)
    fix n rest assume "length (dumps_at level (JStr s)) \<le> n"
    then obtain m where "n = Suc m" by (cases n) (auto simp: encode_str_def)
    then show "parse_value n (dumps_at level (JStr s) @ rest) = Some (JStr s, rest)"
      using parse_value_str[of m s rest] by simp
  qed
next
  case (5 level xs)
  show ?case
  proof (intro impI allI, elim conjE)
    fix n rest
    assume wf: "wf_json (JList xs)" and l: "length (dumps_at level (JList xs)) \<le> n"
    show "parse_value n (dumps_at level (JList xs) @ rest) = Some (JList xs, rest)"
    proof (cases "xs = []")
      case True
      with l obtain m where "n = Suc m" by (cases n) auto
      with True show ?thesis using parse_value_empty_list[of m rest] by simp
    next
      case False
      from dumps_items_start[OF False, of "Suc level"] obtain c t where
        ct: "dumps_items (Suc level) xs = c # t" and vs: "value_start c" by blast
      from l False obtain m where n: "n = Suc m" by (cases n) auto
      with l False length_newline_indent[of level] length_newline_indent[of "Suc level"]
      have b: "length (dumps_items (Suc level) xs) < m" by simp
      from 5[OF False] False wf b
      have "parse_items m (dumps_items (Suc level) xs @ newline_indent level @ CHR '']'' # rest)
          = Some (xs, rest)" by simp
      then have "parse_items m (c # (t @ newline_indent level @ CHR '']'' # rest)) = Some (xs, rest)"
        by (simp add: ct)
      from parse_value_list[OF this vs, of "Suc level"]
      show ?thesis by (simp add: n False ct)
    qed
  qed
next
  case (6 level kvs)
  show ?case
  proof (intro impI allI, elim conjE)
    fix n rest
    assume wf: "wf_json (JObj kvs)" and l: "length (dumps_at level (JObj kvs)) \<le> n"
    show "parse_value n (dumps_at level (JObj kvs) @ rest) = Some (JObj kvs, rest)"
    proof (cases "kvs = []")
      case True
      with l obtain m where "n = Suc m" by (cases n) auto
      with True show ?thesis using parse_value_empty_dict[of m rest] by simp
    next
      case False
      from dumps_members_start[OF False, of "Suc level"] obtain t where
        ct: "dumps_members (Suc level) kvs = dquote # t" by blast
      from l False obtain m where n: "n = Suc m" by (cases n) auto
      with l False length_newline_indent[of level] length_newline_indent[of "Suc level"]
      have b: "length (dumps_members (Suc level) kvs) < m" by simp
      from 6[OF False] False wf b
      have "parse_members m (dumps_members (Suc level) kvs @ newline_indent level @ CHR ''}'' # rest)
          = Some (kvs, rest)" by simp
      then have "parse_members m (dquote # (t @ newline_indent level @ CHR ''}'' # rest))
          = Some (kvs, rest)"
        by (simp add: ct)
      from parse_value_dict[OF this, of "Suc level"] wf
      show ?thesis by (simp add: n False ct dict_of_pairs_distinct)
    qed
  qed
next
  case (7 level)
  show ?case by simp
next
  case (8 level x)
  show ?case
  proof (intro impI allI)
    fix n rest l
    assume wf: "wf_items [x]" and b: "length (dumps_items level [x]) < n"
    then obtain m where n: "n = Suc m" and m: "length (dumps_at level x) \<le> m"
      by (cases n) auto
    from 8 wf m delim_newline_indent[of l "CHR '']'' # rest"]
    have "parse_value m (dumps_at level x @ newline_indent l @ CHR '']'' # rest)
            = Some (x, newline_indent l @ CHR '']'' # rest)" by simp
    from parse_items_last[OF this]
    show "parse_items n (dumps_items level [x] @ newline_indent l @ CHR '']'' # rest)
            = Some ([x], rest)"
      by (simp add: n)
  qed
next
  case (9 level x y xs)
  show ?case
  proof (intro impI allI)
    fix n rest l
    assume wf: "wf_items (x # y # xs)" and b: "length (dumps_items level (x # y # xs)) < n"
    let ?tail = "newline_indent l @ CHR '']'' # rest"
    from dumps_items_start[of "y # xs" level] obtain c t where
      ct: "dumps_items level (y # xs) = c # t" and vs: "value_start c" by blast
    from dumps_at_start[of level x] have px: "0 < length (dumps_at level x)" by auto
    from b obtain m where n: "n = Suc m" by (cases n) auto
    with b px have m1: "length (dumps_at level x) \<le> m"
      and m2: "length (dumps_items level (y # xs)) < m" by simp_all
    from 9(1) wf m1 delim_comma
    have v: "parse_value m (dumps_at level x @ CHR '','' # newline_indent level @ c # (t @ ?tail))
            = Some (x, CHR '','' # newline_indent level @ c # (t @ ?tail))" by simp
    from 9(2) wf m2
    have "parse_items m (dumps_items level (y # xs) @ ?tail) = Some (y # xs, rest)" by simp
    then have i: "parse_items m (c # (t @ ?tail)) = Some (y # xs, rest)" by (simp add: ct)
    from parse_items_more[OF v vs i]
    show "parse_items n (dumps_items level (x # y # xs) @ ?tail) = Some (x # y # xs, rest)"
      by (simp add: n ct)
  qed
next
  case (10 level)
  show ?case by simp
next
  case (11 level k v)
  show ?case
  proof (intro impI allI)
    fix n rest l
    assume wf: "wf_members [(k, v)]" and b: "length (dumps_members level [(k, v)]) < n"
    let ?tail = "newline_indent l @ CHR ''}'' # rest"
    from dumps_at_start[of level v] obtain c t where
      ct: "dumps_at level v = c # t" and vs: "value_start c" by blast
    from b obtain m where n: "n = Suc m" and m: "length (dumps_at level v) \<le> m"
      by (cases n) auto
    from 11 wf m delim_newline_indent[of l "CHR ''}'' # rest"]
    have "parse_value m (dumps_at level v @ ?tail) = Some (v, ?tail)" by simp
    then have "parse_value m (c # t @ ?tail) = Some (v, ?tail)" by (simp add: ct)
    from parse_members_last[OF this vs, of k]
    show "parse_members n (dumps_members level [(k, v)] @ ?tail) = Some ([(k, v)], rest)"
      by (simp add: n ct)
  qed
next
  case (12 level k v p kvs)
  show ?case
  proof (intro impI allI)
    fix n rest l
    assume wf: "wf_members ((k, v) # p # kvs)"
      and b: "length (dumps_members level ((k, v) # p # kvs)) < n"
    let ?tail = "newline_indent l @ CHR ''}'' # rest"
    from dumps_at_start[of level v] obtain c t where
      ct: "dumps_at level v = c # t" and vs: "value_start c" by blast
    from dumps_members_start[of "p # kvs" level] obtain u where
      cu: "dumps_members level (p # kvs) = dquote # u" by blast
    from b obtain m where n: "n = Suc m" by (cases n) auto
    with b have m1: "length (dumps_at level v) \<le> m"
      and m2: "length (dumps_members level (p # kvs)) < m" by simp_all
    from wf have wv: "wf_json v" and wr: "wf_members (p # kvs)" by simp_all
    from 12(1) wv m1 delim_comma
    have "parse_value m (dumps_at level v @ CHR '','' # newline_indent level @ dquote # (u @ ?tail))
            = Some (v, CHR '','' # newline_indent level @ dquote # (u @ ?tail))" by simp
    then have pv: "parse_value m (c # t @ CHR '','' # newline_indent level @ dquote # (u @ ?tail))
            = Some (v, CHR '','' # newline_indent level @ dquote # (u @ ?tail))"
      by (simp add: ct)
    from 12(2) wr m2
    have "parse_members m (dumps_members level (p # kvs) @ ?tail) = Some (p # kvs, rest)" by simp
    then have pm: "parse_members m (dquote # (u @ ?tail)) = Some (p # kvs, rest)"
      by (simp add: cu)
    from parse_members_more[OF pv vs pm, of k]
    show "parse_members n (dumps_members level ((k, v) # p # kvs) @ ?tail)
            = Some ((k, v) # p # kvs, rest)"
      by (simp add: n ct cu)
  qed
qed

lemma json_loads_dumps: "wf_json v \<Longrightarrow> json_loads (json_dumps v) = Some v"
proof -
  assume wf: "wf_json v"
  from dumps_at_start[of 0 v] obtain c t where ct: "dumps_at 0 v = c # t" and vs: "value_start c"
    by blast
  then have s: "skip_ws (dumps_at 0 v) = dumps_at 0 v"
    by (simp add: skip_ws_start value_start_def)
  have "delim []" by (simp add: delim_def)
  with roundtrip(1)[of v 0] wf
  have "parse_value (Suc (length (dumps_at 0 v))) (dumps_at 0 v @ []) = Some (v, [])"
    by (metis le_SucI order_refl)
  then have pv: "parse_value (Suc (length (dumps_at 0 v))) (dumps_at 0 v) = Some (v, [])"
    by (simp only: append_Nil2)
  have e: "skip_ws [] = []" by (simp add: skip_ws_def)
  show ?thesis
    by (simp only: json_loads_def json_dumps_def s pv option.case prod.case e) simp
qed

subsection \<open>\<^verbatim>\<open>save_to_json\<close>\<close>

lemma encode_plain:
  "(\<forall>c \<in> set s. 32 \<le> (of_char c :: nat) \<and> c \<noteq> dquote \<and> c \<noteq> backslash) \<Longrightarrow>
   concat (map escape_char s) = s"
proof (induction s)
  case Nil
  then show ?case by simp
next
  case (Cons c s)
  then have "escape_char c = [c]"
    by (auto simp: escape_char_def)
  with Cons show ?case by simp
qed

text \<open>
  Claim C7.  For a collection that is a Python value (the keys of each dict distinct):
  when nothing fails, \<^verbatim>\<open>save_to_json\<close> returns \<^verbatim>\<open>True\<close> and the file holds the document;
  whenever it returns \<^verbatim>\<open>True\<close>, the file holds a document that, read back, is the
  collection; whenever opening or writing raises, it returns \<^verbatim>\<open>False\<close> and nothing is
  raised; and it returns \<^verbatim>\<open>False\<close> exactly when the file cannot be opened, a write
  fails, or the document has a lone surrogate, which the UTF-8 file cannot take.  A string
  without quote, backslash and control characters, text outside ASCII included, stands in
  the document as it is, between quotes.
\<close>

theorem save_to_json_roundtrip:
  assumes "wf_json data"
  shows "json_loads (json_dumps data) = Some data
       \<and> (\<not> open_fails d filename \<and> filename \<notin> dirs w \<and> \<not> write_fails d filename
            \<and> \<not> has_surrogate (json_dumps data) \<longrightarrow>
          save_to_json d data filename w =
            (True, w\<lparr>files := (files w)(filename \<mapsto> json_dumps data)\<rparr>))
       \<and> (\<forall>w'. save_to_json d data filename w = (True, w') \<longrightarrow>
            (\<exists>doc. files w' filename = Some doc \<and> json_loads doc = Some data))
       \<and> (\<forall>e w1. write_text d filename (json_dumps data) w = (Inl e, w1) \<longrightarrow>
            save_to_json d data filename w = (False, w1))
       \<and> (fst (save_to_json d data filename w) = False \<longleftrightarrow>
            open_fails d filename \<or> filename \<in> dirs w \<or> write_fails d filename
            \<or> has_surrogate (json_dumps data))
       \<and> (\<forall>s level. (\<forall>c \<in> set s. 32 \<le> (of_char c :: nat) \<and> c \<noteq> dquote \<and> c \<noteq> backslash) \<longrightarrow>
            dumps_at level (JStr s) = dquote # s @ [dquote])"
proof -
  have r: "json_loads (json_dumps data) = Some data"
    using assms by (rule json_loads_dumps)
  have a: "\<not> open_fails d filename \<and> filename \<notin> dirs w \<and> \<not> write_fails d filename
            \<and> \<not> has_surrogate (json_dumps data) \<longrightarrow>
          save_to_json d data filename w =
            (True, w\<lparr>files := (files w)(filename \<mapsto> json_dumps data)\<rparr>)"
    by (simp add: save_to_json_def write_text_def)
  have b: "\<forall>w'. save_to_json d data filename w = (True, w') \<longrightarrow>
            (\<exists>doc. files w' filename = Some doc \<and> json_loads doc = Some data)"
    using r by (auto simp: save_to_json_def write_text_def split: if_splits)
  have c: "\<forall>e w1. write_text d filename (json_dumps data) w = (Inl e, w1) \<longrightarrow>
            save_to_json d data filename w = (False, w1)"
    by (simp add: save_to_json_def)
  have e: "fst (save_to_json d data filename w) = False \<longleftrightarrow>
            open_fails d filename \<or> filename \<in> dirs w \<or> write_fails d filename
            \<or> has_surrogate (json_dumps data)"
    by (simp add: save_to_json_def write_text_def)
  have f: "\<forall>s level. (\<forall>c \<in> set s. 32 \<le> (of_char c :: nat) \<and> c \<noteq> dquote \<and> c \<noteq> backslash) \<longrightarrow>
            dumps_at level (JStr s) = dquote # s @ [dquote]"
    by (simp add: encode_str_def encode_plain)
  from r a b c e f show ?thesis by blast
qed

lemma wf_unicode_collection: "wf_json unicode_collection"
  by (simp add: unicode_collection_def)

theorem save_to_json_witness:
  "json_loads (json_dumps unicode_collection) = Some unicode_collection \<and>
   save_to_json d0 unicode_collection ''hdri_metadata.json'' w0 =
     (True, w0\<lparr>files := (files w0)(''hdri_metadata.json'' \<mapsto> json_dumps unicode_collection)\<rparr>) \<and>
   fst (save_to_json d0 surrogate_collection ''hdri_metadata.json'' w0) = False"
proof -
  have s: "\<not> has_surrogate (json_dumps unicode_collection)"
    by code_simp
  have t: "has_surrogate (json_dumps surrogate_collection)"
    by code_simp
  have w: "wf_json surrogate_collection" by (simp add: surrogate_collection_def)
  from save_to_json_roundtrip[OF wf_unicode_collection, of d0 "''hdri_metadata.json''" w0]
       save_to_json_roundtrip[OF w, of d0 "''hdri_metadata.json''" w0] s t
  show ?thesis by (simp add: d0_def w0_def)
qed

end
